theory Spec2Isabelle
  imports Complex_Main "HOL-Library.Word"
begin

text \<open>
  A model of the job orchestration of the AI voice tuning server: the worker invoker
  (\<open>PythonService\<close>), the in-memory job registry with the upload, info and process
  controllers, and the two retention sweepers (\<open>FileManager.cleanupOldFiles\<close> and
  \<open>CleanupScheduler\<close>). Calls of the logger are left out throughout: nothing reads the
  log. What the code awaits (the subprocess, the timer, the file system, the clock) is a
  parameter of the model.
\<close>

section \<open>JavaScript strings\<close>

text \<open>
  A JavaScript string is a sequence of 16-bit code units. The literals of the source are
  ASCII, so \<open>js ''...''\<close> renders them exactly.
\<close>

type_synonym jschar = "16 word"
type_synonym jsstring = "jschar list"

definition js :: "string \<Rightarrow> jsstring" where
  "js s = map of_char s"

text \<open>
  \<open>String.prototype.trim\<close> removes WhiteSpace and LineTerminator code units from both
  ends: TAB, VT, FF, SP, NBSP, ZWNBSP, the Unicode space separators, and LF, CR, LS, PS.
\<close>

definition isLineTerminator :: "jschar \<Rightarrow> bool" where
  "isLineTerminator c \<longleftrightarrow> c = 0x000A \<or> c = 0x000D \<or> c = 0x2028 \<or> c = 0x2029"

definition isWhiteSpace :: "jschar \<Rightarrow> bool" where
  "isWhiteSpace c \<longleftrightarrow>
     c = 0x0009 \<or> c = 0x000B \<or> c = 0x000C \<or> c = 0x0020 \<or> c = 0x00A0 \<or> c = 0xFEFF \<or>
     c = 0x1680 \<or> (0x2000 \<le> c \<and> c \<le> 0x200A) \<or> c = 0x202F \<or> c = 0x205F \<or> c = 0x3000 \<or>
     isLineTerminator c"

definition trimStart :: "jsstring \<Rightarrow> jsstring" where
  "trimStart s = dropWhile isWhiteSpace s"

definition trimEnd :: "jsstring \<Rightarrow> jsstring" where
  "trimEnd s = rev (dropWhile isWhiteSpace (rev s))"

definition trim :: "jsstring \<Rightarrow> jsstring" where
  "trim s = trimEnd (trimStart s)"

text \<open>
  Template literals render a number with \<open>Number::toString\<close>. A JavaScript number is
  a double: \<open>numberToString\<close> is that rendering for the safe integers, those of
  magnitude at most \<open>2^53 - 1\<close> (\<open>Number.isSafeInteger\<close>), each of which is a double
  and is printed as its decimal numeral, with a leading minus sign. Beyond them the
  integers are no longer all doubles, the digits printed are the shortest that read back
  to the same double, and from \<open>10^21\<close> on the exponent form \<open>1e+21\<close> is used:
  \<open>numberToString\<close> does not describe those, and every property that reads the text
  of a number assumes \<open>isSafeInteger\<close> of it.
\<close>

definition isSafeInteger :: "int \<Rightarrow> bool" where
  "isSafeInteger i \<longleftrightarrow> - (2 ^ 53 - 1) \<le> i \<and> i \<le> 2 ^ 53 - 1"

fun decimal :: "nat \<Rightarrow> jsstring" where
  "decimal n = (if n < 10 then [0x30 + of_nat n] else decimal (n div 10) @ [0x30 + of_nat (n mod 10)])"

declare decimal.simps [simp del]

definition numberToString :: "int \<Rightarrow> jsstring" where
  "numberToString i = (if i < 0 then 0x2D # decimal (nat (- i)) else decimal (nat i))"

text \<open>\<open>a || b\<close> on a possibly undefined string: the empty string is falsy.\<close>

definition jsOr :: "jsstring option \<Rightarrow> jsstring \<Rightarrow> jsstring" where
  "jsOr a b = (case a of None \<Rightarrow> b | Some s \<Rightarrow> if s = [] then b else s)"

section \<open>Worker Invoker: \<open>src/services/pythonService.js\<close>\<close>

record PythonService =
  pythonPath :: jsstring
  scriptPath :: jsstring
  timeout :: int

text \<open>
  \<open>this.timeout = parseInt(process.env.PYTHON_TIMEOUT) || 30000\<close>: \<open>None\<close> stands for
  the \<open>NaN\<close> of an unset or non-numeric variable; \<open>NaN\<close> and \<open>0\<close> are falsy.
\<close>

definition constructor_timeout :: "int option \<Rightarrow> int" where
  "constructor_timeout parsed = (case parsed of None \<Rightarrow> 30000 | Some n \<Rightarrow> if n = 0 then 30000 else n)"

subsection \<open>\<open>parseErrorMessage\<close>\<close>

text \<open>
  \<open>errorOutput.match(/ERROR:([A-Z_]+):(.+)/)\<close>. The pattern is unanchored: the match is
  tried at each start index from the left and the first success wins. At a fixed start the
  match is forced: after the literal \<open>ERROR:\<close> the class \<open>[A-Z_]+\<close> takes the longest run
  of class characters (a shorter run would be followed by a class character, never by the
  colon the pattern needs next), and \<open>.+\<close> takes every code unit up to the next line
  terminator, with nothing after it in the pattern to make it give any back.
\<close>

definition isTypeChar :: "jschar \<Rightarrow> bool" where
  "isTypeChar c \<longleftrightarrow> (0x41 \<le> c \<and> c \<le> 0x5A) \<or> c = 0x5F"

fun stripPrefix :: "jsstring \<Rightarrow> jsstring \<Rightarrow> jsstring option" where
  "stripPrefix [] s = Some s"
| "stripPrefix (p # ps) [] = None"
| "stripPrefix (p # ps) (c # cs) = (if p = c then stripPrefix ps cs else None)"

definition matchAt :: "jsstring \<Rightarrow> (jsstring \<times> jsstring) option" where
  "matchAt s =
     (case stripPrefix (js ''ERROR:'') s of
        None \<Rightarrow> None
      | Some r \<Rightarrow>
          (let errorType = takeWhile isTypeChar r in
           if errorType = [] then None
           else (case dropWhile isTypeChar r of
                   [] \<Rightarrow> None
                 | c # r' \<Rightarrow>
                     if c \<noteq> 0x3A then None
                     else (let message = takeWhile (\<lambda>c. \<not> isLineTerminator c) r' in
                           if message = [] then None else Some (errorType, message)))))"

fun errorMatch :: "jsstring \<Rightarrow> (jsstring \<times> jsstring) option" where
  "errorMatch [] = None"
| "errorMatch (c # cs) =
     (case matchAt (c # cs) of Some m \<Rightarrow> Some m | None \<Rightarrow> errorMatch cs)"

text \<open>
  The lookup table of the source, built per call because the \<open>PROCESSING_FAILED\<close> entry
  embeds the trimmed detail. A captured type consists of capitals and underscores only, so
  it never names an inherited property of the object literal.
\<close>

definition errorMessages :: "jsstring \<Rightarrow> (jsstring \<times> jsstring) list" where
  "errorMessages errorMessage =
     [(js ''FILE_NOT_FOUND'', js ''Audio file not found''),
      (js ''INVALID_ARGUMENTS'', js ''Invalid arguments provided to Python engine''),
      (js ''PROCESSING_FAILED'', js ''Audio processing failed: '' @ errorMessage)]"

definition parseErrorMessage :: "jsstring \<Rightarrow> jsstring" where
  "parseErrorMessage errorOutput =
     (case errorMatch errorOutput of
        Some (errorType, detail) \<Rightarrow>
          (let errorMessage = trim detail in
           jsOr (map_of (errorMessages errorMessage) errorType)
                (js ''Processing error: '' @ errorMessage))
      | None \<Rightarrow> jsOr (Some (trim errorOutput)) (js ''Unknown Python processing error''))"

subsection \<open>\<open>processAudio\<close>: the promise and its event handlers\<close>

text \<open>
  The promise executor spawns the subprocess, arms the timer and registers four
  listeners; what happens afterwards is decided by the order in which the event loop
  runs the callbacks. An \<open>event\<close> is one callback run.
\<close>

datatype event =
    StdoutData jsstring
  | StderrData jsstring
  | Close "int option"
  | SpawnError jsstring
  | TimerFired

datatype signal = SIGTERM

datatype settlement = Resolve jsstring | Reject jsstring

text \<open>
  The locals of the executor. \<open>outputText\<close> is the source's local \<open>outputPath\<close> (renamed:
  the job record has a field of that name); \<open>timeoutId\<close> is true while the timer is armed;
  \<open>killed\<close> lists the signals sent by \<open>python.kill\<close>; \<open>settled\<close> lists every call of
  \<open>resolve\<close> or \<open>reject\<close> in order.
\<close>

record invocation =
  spawnArgs :: "jsstring list"
  outputText :: jsstring
  errorOutput :: jsstring
  timeoutId :: bool
  processCompleted :: bool
  killed :: "signal list"
  settled :: "settlement list"

definition spawn :: "PythonService \<Rightarrow> jsstring \<Rightarrow> invocation" where
  "spawn this audioFilePath =
     \<lparr>spawnArgs = [pythonPath this, scriptPath this, audioFilePath],
      outputText = [], errorOutput = [], timeoutId = True, processCompleted = False,
      killed = [], settled = []\<rparr>"

definition onTimeout :: "PythonService \<Rightarrow> invocation \<Rightarrow> invocation" where
  "onTimeout this v =
     (if \<not> processCompleted v
      then v\<lparr>processCompleted := True,
             killed := killed v @ [SIGTERM],
             settled := settled v @
               [Reject (js ''Processing timeout: exceeded '' @ numberToString (timeout this) @ js ''ms'')]\<rparr>
      else v)"

definition onStdout :: "jsstring \<Rightarrow> invocation \<Rightarrow> invocation" where
  "onStdout output v = v\<lparr>outputText := outputText v @ output\<rparr>"

definition onStderr :: "jsstring \<Rightarrow> invocation \<Rightarrow> invocation" where
  "onStderr error v = v\<lparr>errorOutput := errorOutput v @ error\<rparr>"

definition onClose :: "int option \<Rightarrow> invocation \<Rightarrow> invocation" where
  "onClose code v =
     (if processCompleted v then v
      else (let v' = v\<lparr>processCompleted := True, timeoutId := False\<rparr> in
            if code = Some 0
            then (let trimmedPath = trim (outputText v') in
                  if trimmedPath = []
                  then v'\<lparr>settled := settled v' @
                         [Reject (js ''Python process succeeded but returned no output path'')]\<rparr>
                  else v'\<lparr>settled := settled v' @ [Resolve trimmedPath]\<rparr>)
            else v'\<lparr>settled := settled v' @ [Reject (parseErrorMessage (errorOutput v'))]\<rparr>))"

definition onError :: "jsstring \<Rightarrow> invocation \<Rightarrow> invocation" where
  "onError message v =
     (if processCompleted v then v
      else v\<lparr>processCompleted := True, timeoutId := False,
             settled := settled v @ [Reject (js ''Failed to start Python engine: '' @ message)]\<rparr>)"

fun handle :: "PythonService \<Rightarrow> invocation \<Rightarrow> event \<Rightarrow> invocation" where
  "handle this v (StdoutData d) = onStdout d v"
| "handle this v (StderrData d) = onStderr d v"
| "handle this v (Close code) = onClose code v"
| "handle this v (SpawnError m) = onError m v"
| "handle this v TimerFired = onTimeout this (v\<lparr>timeoutId := False\<rparr>)"

definition processAudio :: "PythonService \<Rightarrow> jsstring \<Rightarrow> event list \<Rightarrow> invocation" where
  "processAudio this audioFilePath events = foldl (handle this) (spawn this audioFilePath) events"

text \<open>
  A promise keeps its first settlement; later calls of \<open>resolve\<close> or \<open>reject\<close> are ignored.
  \<open>None\<close>: the promise is still pending.
\<close>

definition promiseResult :: "invocation \<Rightarrow> settlement option" where
  "promiseResult v = (case settled v of [] \<Rightarrow> None | s # _ \<Rightarrow> Some s)"

section \<open>Job registry and orchestrator: the upload, info and process controllers\<close>

text \<open>
  The registry is \<open>req.app.locals.audioFiles\<close>, an object keyed by job id. The source only
  ever adds entries (\<open>handleUpload\<close>, under a fresh UUID) and mutates the fields of an
  entry in place; it never removes or replaces one. So an update through the reference a
  handler holds is an update of the entry under its key.

  Field names follow the source, except where a name is taken in HOL: \<open>id\<close> is
  \<open>audio_id\<close> and \<open>size\<close> is \<open>fileSize\<close>. Instants (\<open>Date.now()\<close>,
  \<open>new Date().toISOString()\<close>) are milliseconds since the epoch.
\<close>

datatype status = Uploaded | Processing | Completed | Failed

record audioData =
  audio_id :: jsstring
  filename :: jsstring
  fileSize :: nat
  duration :: nat
  format :: jsstring
  uploadedAt :: int
  status :: status
  filepath :: jsstring
  storedFilename :: jsstring
  outputPath :: "jsstring option"
  processingTime :: "rat option"
  completedAt :: "int option"
  error :: "jsstring option"
  failedAt :: "int option"

text \<open>
  The server state a request handler can touch: the registry, and the subprocesses
  spawned so far (the argument vector of each \<open>spawn\<close>).
\<close>

record server =
  audioFiles :: "jsstring \<rightharpoonup> audioData"
  spawned :: "jsstring list list"

text \<open>\<open>req.file\<close> as multer fills it in.\<close>

datatype multerFile =
  MulterFile (originalname: jsstring) (mimetype: jsstring) (bytes: nat) (path: jsstring)
    (diskName: jsstring)

text \<open>
  Response bodies. \<open>Failure e\<close> is \<open>{success: false, error: e}\<close>; the others are
  \<open>{success: true, data: ...}\<close> with the fields of the respective handler.
\<close>

datatype extra =
    NoExtra
  | CompletedExtra "int option" "rat option"
  | FailedExtra "int option" "jsstring option"

datatype body =
    Failure jsstring
  | UploadData jsstring jsstring nat nat jsstring int status
  | ProcessData jsstring status jsstring rat
  | InfoData jsstring jsstring nat nat jsstring status int extra

datatype response = Response (statusCode: nat) (content: body)

definition getFormatFromMimetype :: "jsstring \<Rightarrow> jsstring" where
  "getFormatFromMimetype m =
     jsOr (map_of
       [(js ''audio/wav'', js ''wav''), (js ''audio/x-wav'', js ''wav''),
        (js ''audio/mpeg'', js ''mp3''), (js ''audio/mp3'', js ''mp3''),
        (js ''audio/webm'', js ''webm''), (js ''audio/ogg'', js ''ogg'')] m)
       (js ''unknown'')"

definition handleUpload ::
  "multerFile option \<Rightarrow> jsstring \<Rightarrow> int \<Rightarrow> server \<Rightarrow> response \<times> server" where
  "handleUpload file uuid now srv =
     (case file of
        None \<Rightarrow> (Response 400 (Failure (js ''Tidak ada file yang diunggah'')), srv)
      | Some f \<Rightarrow>
          (let audioId = uuid;
               duration = 0;
               fmt = getFormatFromMimetype (mimetype f);
               entry = \<lparr>audio_id = audioId, filename = originalname f, fileSize = bytes f,
                        duration = duration, format = fmt, uploadedAt = now,
                        status = Uploaded, filepath = path f, storedFilename = diskName f,
                        outputPath = None, processingTime = None, completedAt = None,
                        error = None, failedAt = None\<rparr>
           in (Response 200
                 (UploadData audioId (originalname f) (bytes f) duration fmt now Uploaded),
               srv\<lparr>audioFiles := (audioFiles srv)(audioId \<mapsto> entry)\<rparr>)))"

text \<open>\<open>req.params.id\<close> and \<open>req.body.audioId\<close>: \<open>None\<close> when absent; \<open>''\<close> is falsy too.\<close>

definition getAudioInfo :: "jsstring option \<Rightarrow> server \<Rightarrow> response" where
  "getAudioInfo param srv =
     (case param of
        None \<Rightarrow> Response 400 (Failure (js ''audioId diperlukan''))
      | Some audioId \<Rightarrow>
          if audioId = [] then Response 400 (Failure (js ''audioId diperlukan''))
          else (case audioFiles srv audioId of
                  None \<Rightarrow> Response 404 (Failure (js ''Audio tidak ditemukan''))
                | Some audioData \<Rightarrow>
                    Response 200
                      (InfoData audioId (filename audioData) (duration audioData)
                         (fileSize audioData) (format audioData) (status audioData)
                         (uploadedAt audioData)
                         (if status audioData = Completed
                          then CompletedExtra (completedAt audioData) (processingTime audioData)
                          else if status audioData = Failed
                          then FailedExtra (failedAt audioData) (error audioData)
                          else NoExtra))))"

subsection \<open>\<open>processAudio\<close> of the process controller\<close>

text \<open>
  The handler is an \<open>async\<close> function with two \<open>await\<close>s, so it runs in three
  uninterrupted segments: up to \<open>await fs.access\<close>, from there to
  \<open>await pythonService.processAudio\<close>, and from the settlement of that promise to the
  end. Between two segments the event loop may run anything else. A \<open>task\<close> is a handler
  between segments: what it waits for, with the locals it keeps (\<open>audioId\<close>,
  \<open>startTime\<close>), or the response it has sent. Sending a response does not throw, so
  the outer \<open>catch\<close> is never entered.
\<close>

datatype task =
    AwaitAccess jsstring int
  | AwaitWorker jsstring int
  | Done response

definition updateJob :: "jsstring \<Rightarrow> (audioData \<Rightarrow> audioData) \<Rightarrow> server \<Rightarrow> server" where
  "updateJob audioId f srv =
     srv\<lparr>audioFiles := (audioFiles srv)(audioId := map_option f (audioFiles srv audioId))\<rparr>"

definition processController_enter :: "int \<Rightarrow> jsstring option \<Rightarrow> server \<Rightarrow> task" where
  "processController_enter startTime param srv =
     (case param of
        None \<Rightarrow> Done (Response 400 (Failure (js ''audioId diperlukan'')))
      | Some audioId \<Rightarrow>
          if audioId = [] then Done (Response 400 (Failure (js ''audioId diperlukan'')))
          else (case audioFiles srv audioId of
                  None \<Rightarrow> Done (Response 404 (Failure (js ''Audio tidak ditemukan'')))
                | Some audioData \<Rightarrow> AwaitAccess audioId startTime))"

text \<open>
  Second segment: \<open>accessible\<close> tells whether \<open>fs.access(audioData.filepath)\<close> resolved.
  On success the status is set and \<open>pythonService.processAudio\<close> is called, whose
  executor spawns the subprocess at once. (The entry is still in the registry: the first
  segment found it and nothing removes entries; the \<open>None\<close> branch is never taken.)
\<close>

definition processController_accessed ::
  "PythonService \<Rightarrow> bool \<Rightarrow> jsstring \<Rightarrow> int \<Rightarrow> server \<Rightarrow> task \<times> server" where
  "processController_accessed pythonService accessible audioId startTime srv =
     (if \<not> accessible
      then (Done (Response 404 (Failure (js ''File audio tidak ditemukan di server''))), srv)
      else (case audioFiles srv audioId of
              None \<Rightarrow> (AwaitWorker audioId startTime, srv)
            | Some audioData \<Rightarrow>
                (AwaitWorker audioId startTime,
                 (updateJob audioId (\<lambda>d. d\<lparr>status := Processing\<rparr>) srv)
                   \<lparr>spawned := spawned srv @ [spawnArgs (spawn pythonService (filepath audioData))]\<rparr>)))"

text \<open>
  Third segment: the promise has settled. \<open>endTime\<close> is the \<open>Date.now()\<close> of the success
  branch, \<open>stamp\<close> the \<open>new Date()\<close> of either branch.
\<close>

definition processController_settled ::
  "settlement \<Rightarrow> int \<Rightarrow> int \<Rightarrow> jsstring \<Rightarrow> int \<Rightarrow> server \<Rightarrow> response \<times> server" where
  "processController_settled outcome endTime stamp audioId startTime srv =
     (case outcome of
        Resolve outputPath' \<Rightarrow>
          (let processingTime' = of_int (endTime - startTime) / 1000 in
           (Response 200 (ProcessData audioId Completed outputPath' processingTime'),
            updateJob audioId
              (\<lambda>d. d\<lparr>status := Completed, outputPath := Some outputPath',
                     processingTime := Some processingTime', completedAt := Some stamp\<rparr>) srv))
      | Reject message \<Rightarrow>
          (Response 500 (Failure (js ''Gagal memproses audio: '' @ message)),
           updateJob audioId
             (\<lambda>d. d\<lparr>status := Failed, error := Some message, failedAt := Some stamp\<rparr>) srv))"

text \<open>
  One whole request with nothing else running in between. The surroundings answer with
  \<open>fileExists\<close> (the file system at the time of \<open>fs.access\<close>), with the callbacks the
  subprocess and the timer cause (\<open>events\<close>) and with the clock readings. The response is
  \<open>None\<close> while the promise is pending, that is when \<open>events\<close> stops before any of exit,
  spawn error or timer.
\<close>

record surroundings =
  fileExists :: "jsstring \<Rightarrow> bool"
  events :: "event list"
  startTime :: int
  endTime :: int
  stamp :: int

definition processController_processAudio ::
  "PythonService \<Rightarrow> surroundings \<Rightarrow> jsstring option \<Rightarrow> server \<Rightarrow> response option \<times> server" where
  "processController_processAudio pythonService env param srv =
     (case processController_enter (startTime env) param srv of
        Done r \<Rightarrow> (Some r, srv)
      | AwaitWorker audioId t0 \<Rightarrow> (None, srv)
      | AwaitAccess audioId t0 \<Rightarrow>
          (case audioFiles srv audioId of
             None \<Rightarrow> (None, srv)
           | Some audioData \<Rightarrow>
               (case processController_accessed pythonService
                       (fileExists env (filepath audioData)) audioId t0 srv of
                  (Done r, srv') \<Rightarrow> (Some r, srv')
                | (AwaitAccess _ _, srv') \<Rightarrow> (None, srv')
                | (AwaitWorker _ _, srv') \<Rightarrow>
                    (case promiseResult
                            (processAudio pythonService (filepath audioData) (events env)) of
                       None \<Rightarrow> (None, srv')
                     | Some outcome \<Rightarrow>
                         (case processController_settled outcome (endTime env) (stamp env)
                                 audioId t0 srv' of
                            (r, srv'') \<Rightarrow> (Some r, srv''))))))"

subsection \<open>Several requests in flight\<close>

text \<open>
  What the event loop hands to a suspended handler: the outcome of \<open>fs.access\<close>, or the
  settlement of the worker promise together with the clock readings of the last segment.
\<close>

datatype resumption =
    Accessed bool
  | Settled settlement int int

fun resume :: "PythonService \<Rightarrow> resumption \<Rightarrow> task \<Rightarrow> server \<Rightarrow> task \<times> server" where
  "resume pythonService (Accessed ok) (AwaitAccess audioId t0) srv =
     processController_accessed pythonService ok audioId t0 srv"
| "resume pythonService (Settled outcome endT stampT) (AwaitWorker audioId t0) srv =
     (case processController_settled outcome endT stampT audioId t0 srv of
        (r, srv') \<Rightarrow> (Done r, srv'))"
| "resume pythonService r t srv = (t, srv)"

text \<open>
  A schedule names, step by step, which of the requests in flight runs its next segment
  and with what. A step that names no request, or one that is not waiting for that kind
  of resumption, does nothing.
\<close>

definition deliver ::
  "PythonService \<Rightarrow> task list \<times> server \<Rightarrow> nat \<times> resumption \<Rightarrow> task list \<times> server" where
  "deliver pythonService st x =
     (case st of (ts, srv) \<Rightarrow>
        (case x of (i, r) \<Rightarrow>
           if i < length ts
           then (case resume pythonService r (ts ! i) srv of (t', srv') \<Rightarrow> (ts[i := t'], srv'))
           else (ts, srv)))"

definition runSchedule ::
  "PythonService \<Rightarrow> (nat \<times> resumption) list \<Rightarrow> task list \<times> server \<Rightarrow> task list \<times> server" where
  "runSchedule pythonService schedule st = foldl (deliver pythonService) st schedule"

fun taskId :: "task \<Rightarrow> jsstring option" where
  "taskId (AwaitAccess audioId t0) = Some audioId"
| "taskId (AwaitWorker audioId t0) = Some audioId"
| "taskId (Done r) = None"

section \<open>Retention sweeper\<close>

subsection \<open>The file system as the sweeper sees it\<close>

text \<open>
  A directory is missing, cannot be created or read, or holds named entries in the order
  \<open>readdir\<close> lists them. An entry carries what \<open>fs.stat\<close> reports of it (\<open>isFile\<close>,
  \<open>mtime\<close> in milliseconds) and whether \<open>fs.unlink\<close> would be allowed to remove it.
  \<open>path.join(directory, file)\<close> addresses the entry \<open>file\<close> of \<open>directory\<close>.
\<close>

datatype errno = ENOENT | EACCES | EPERM

record node =
  isFile :: bool
  mtime :: int
  removable :: bool

datatype folder = Missing | Unavailable | Present "(jsstring \<times> node) list"

record world =
  disk :: "jsstring \<Rightarrow> folder"
  time :: int

text \<open>
  Every file-system call of the source is awaited, and at an \<open>await\<close> anything else may
  run: other handlers, the other sweeper, other processes, the clock. An \<open>interference\<close>
  says what the rest of the world does just before the \<open>n\<close>-th awaited call takes
  effect. The process state holds the world, the number of calls awaited so far, and the
  entries this process has itself unlinked.
\<close>

datatype syscall =
    Mkdir jsstring
  | Readdir jsstring
  | Stat jsstring jsstring
  | Unlink jsstring jsstring

type_synonym interference = "nat \<Rightarrow> syscall \<Rightarrow> world \<Rightarrow> world"

record sys =
  world :: world
  awaited :: nat
  unlinked :: "(jsstring \<times> jsstring) list"

definition quiescent :: interference where
  "quiescent n call w = w"

definition suspend :: "interference \<Rightarrow> syscall \<Rightarrow> sys \<Rightarrow> sys" where
  "suspend env call s = s\<lparr>world := env (awaited s) call (world s), awaited := Suc (awaited s)\<rparr>"

definition setFolder :: "jsstring \<Rightarrow> folder \<Rightarrow> sys \<Rightarrow> sys" where
  "setFolder d f s = s\<lparr>world := (world s)\<lparr>disk := (disk (world s))(d := f)\<rparr>\<rparr>"

definition fs_mkdir :: "interference \<Rightarrow> jsstring \<Rightarrow> sys \<Rightarrow> (errno + unit) \<times> sys" where
  "fs_mkdir env d s =
     (let s' = suspend env (Mkdir d) s in
      case disk (world s') d of
        Missing \<Rightarrow> (Inr (), setFolder d (Present []) s')
      | Unavailable \<Rightarrow> (Inl EACCES, s')
      | Present es \<Rightarrow> (Inr (), s'))"

definition fs_readdir :: "interference \<Rightarrow> jsstring \<Rightarrow> sys \<Rightarrow> (errno + jsstring list) \<times> sys" where
  "fs_readdir env d s =
     (let s' = suspend env (Readdir d) s in
      case disk (world s') d of
        Missing \<Rightarrow> (Inl ENOENT, s')
      | Unavailable \<Rightarrow> (Inl EACCES, s')
      | Present es \<Rightarrow> (Inr (map fst es), s'))"

definition fs_stat :: "interference \<Rightarrow> jsstring \<Rightarrow> jsstring \<Rightarrow> sys \<Rightarrow> (errno + node) \<times> sys" where
  "fs_stat env d file s =
     (let s' = suspend env (Stat d file) s in
      case disk (world s') d of
        Missing \<Rightarrow> (Inl ENOENT, s')
      | Unavailable \<Rightarrow> (Inl EACCES, s')
      | Present es \<Rightarrow>
          (case map_of es file of None \<Rightarrow> (Inl ENOENT, s') | Some n \<Rightarrow> (Inr n, s')))"

definition fs_unlink :: "interference \<Rightarrow> jsstring \<Rightarrow> jsstring \<Rightarrow> sys \<Rightarrow> (errno + unit) \<times> sys" where
  "fs_unlink env d file s =
     (let s' = suspend env (Unlink d file) s in
      case disk (world s') d of
        Missing \<Rightarrow> (Inl ENOENT, s')
      | Unavailable \<Rightarrow> (Inl EACCES, s')
      | Present es \<Rightarrow>
          (case map_of es file of
             None \<Rightarrow> (Inl ENOENT, s')
           | Some n \<Rightarrow>
               if isFile n \<and> removable n
               then (Inr (), (setFolder d (Present (filter (\<lambda>e. fst e \<noteq> file) es)) s')
                               \<lparr>unlinked := unlinked s' @ [(d, file)]\<rparr>)
               else (Inl EPERM, s')))"

subsection \<open>\<open>FileManager\<close> (\<open>src/services/fileManager.js\<close>)\<close>

text \<open>\<open>deleteFile\<close>: true when unlinked, false on \<open>ENOENT\<close>, any other error is rethrown.\<close>

definition FileManager_deleteFile ::
  "interference \<Rightarrow> jsstring \<Rightarrow> jsstring \<Rightarrow> sys \<Rightarrow> (errno + bool) \<times> sys" where
  "FileManager_deleteFile env d file s =
     (case fs_unlink env d file s of
        (Inr u, s') \<Rightarrow> (Inr True, s')
      | (Inl e, s') \<Rightarrow> if e = ENOENT then (Inr False, s') else (Inl e, s'))"

text \<open>
  The loop of \<open>cleanupOldFiles\<close>. The inner \<open>try\<close> covers \<open>stat\<close> and \<open>deleteFile\<close>: an
  error of either skips the file. The counter is incremented after \<open>deleteFile\<close> returns,
  whatever it returns.
\<close>

fun FileManager_loop ::
  "interference \<Rightarrow> jsstring \<Rightarrow> int \<Rightarrow> int \<Rightarrow> jsstring list \<Rightarrow> nat \<Rightarrow> sys \<Rightarrow> nat \<times> sys" where
  "FileManager_loop env directory maxAge now [] deletedCount s = (deletedCount, s)"
| "FileManager_loop env directory maxAge now (file # files) deletedCount s =
     (case fs_stat env directory file s of
        (Inl e, s1) \<Rightarrow> FileManager_loop env directory maxAge now files deletedCount s1
      | (Inr stats, s1) \<Rightarrow>
          if \<not> isFile stats
          then FileManager_loop env directory maxAge now files deletedCount s1
          else (let fileAge = now - mtime stats in
                if fileAge > maxAge
                then (case FileManager_deleteFile env directory file s1 of
                        (Inl e, s2) \<Rightarrow>
                          FileManager_loop env directory maxAge now files deletedCount s2
                      | (Inr deleted, s2) \<Rightarrow>
                          FileManager_loop env directory maxAge now files (deletedCount + 1) s2)
                else FileManager_loop env directory maxAge now files deletedCount s1))"

definition FileManager_cleanupOldFiles ::
  "interference \<Rightarrow> jsstring \<Rightarrow> int \<Rightarrow> sys \<Rightarrow> (errno + nat) \<times> sys" where
  "FileManager_cleanupOldFiles env directory maxAge s =
     (case fs_mkdir env directory s of
        (Inl e, s1) \<Rightarrow> (Inl e, s1)
      | (Inr u, s1) \<Rightarrow>
          (case fs_readdir env directory s1 of
             (Inl e, s2) \<Rightarrow> (Inl e, s2)
           | (Inr files, s2) \<Rightarrow>
               (let now = time (world s2) in
                case FileManager_loop env directory maxAge now files 0 s2 of
                  (deletedCount, s3) \<Rightarrow> (Inr deletedCount, s3))))"

subsection \<open>\<open>CleanupScheduler\<close> (\<open>src/utils/cleanup.js\<close>)\<close>

record CleanupScheduler =
  uploadDir :: jsstring
  outputDir :: jsstring
  maxAge :: int

definition CleanupScheduler_isFileOld ::
  "interference \<Rightarrow> CleanupScheduler \<Rightarrow> jsstring \<Rightarrow> jsstring \<Rightarrow> sys \<Rightarrow> bool \<times> sys" where
  "CleanupScheduler_isFileOld env this d file s =
     (case fs_stat env d file s of
        (Inl e, s') \<Rightarrow> (False, s')
      | (Inr stats, s') \<Rightarrow>
          (let now = time (world s'); fileAge = now - mtime stats in
           (fileAge > maxAge this, s')))"

definition CleanupScheduler_deleteFile ::
  "interference \<Rightarrow> jsstring \<Rightarrow> jsstring \<Rightarrow> sys \<Rightarrow> bool \<times> sys" where
  "CleanupScheduler_deleteFile env d file s =
     (case fs_unlink env d file s of
        (Inr u, s') \<Rightarrow> (True, s')
      | (Inl e, s') \<Rightarrow> (False, s'))"

fun CleanupScheduler_loop ::
  "interference \<Rightarrow> CleanupScheduler \<Rightarrow> jsstring \<Rightarrow> jsstring list \<Rightarrow> nat \<Rightarrow> sys \<Rightarrow> nat \<times> sys" where
  "CleanupScheduler_loop env this directory [] deletedCount s = (deletedCount, s)"
| "CleanupScheduler_loop env this directory (file # files) deletedCount s =
     (case fs_stat env directory file s of
        (Inl e, s1) \<Rightarrow> CleanupScheduler_loop env this directory files deletedCount s1
      | (Inr stats, s1) \<Rightarrow>
          if \<not> isFile stats
          then CleanupScheduler_loop env this directory files deletedCount s1
          else (case CleanupScheduler_isFileOld env this directory file s1 of
                  (isOld, s2) \<Rightarrow>
                    if isOld
                    then (case CleanupScheduler_deleteFile env directory file s2 of
                            (deleted, s3) \<Rightarrow>
                              CleanupScheduler_loop env this directory files
                                (if deleted then deletedCount + 1 else deletedCount) s3)
                    else CleanupScheduler_loop env this directory files deletedCount s2))"

text \<open>The outer \<open>catch\<close> of \<open>cleanupDirectory\<close> turns a failing \<open>mkdir\<close> or \<open>readdir\<close> into 0.\<close>

definition CleanupScheduler_cleanupDirectory ::
  "interference \<Rightarrow> CleanupScheduler \<Rightarrow> jsstring \<Rightarrow> sys \<Rightarrow> nat \<times> sys" where
  "CleanupScheduler_cleanupDirectory env this directory s =
     (case fs_mkdir env directory s of
        (Inl e, s1) \<Rightarrow> (0, s1)
      | (Inr u, s1) \<Rightarrow>
          (case fs_readdir env directory s1 of
             (Inl e, s2) \<Rightarrow> (0, s2)
           | (Inr files, s2) \<Rightarrow> CleanupScheduler_loop env this directory files 0 s2))"

section \<open>Notions the properties are stated with\<close>

text \<open>
  Exit, spawn error and timer are the events that can settle the promise; the others only
  add to the two buffers. \<open>stdoutOf\<close> and \<open>stderrOf\<close> are the text a run of events writes
  to each stream.
\<close>

fun terminal :: "event \<Rightarrow> bool" where
  "terminal (StdoutData d) = False"
| "terminal (StderrData d) = False"
| "terminal (Close code) = True"
| "terminal (SpawnError m) = True"
| "terminal TimerFired = True"

fun stdoutOf :: "event list \<Rightarrow> jsstring" where
  "stdoutOf [] = []"
| "stdoutOf (StdoutData d # es) = d @ stdoutOf es"
| "stdoutOf (e # es) = stdoutOf es"

fun stderrOf :: "event list \<Rightarrow> jsstring" where
  "stderrOf [] = []"
| "stderrOf (StderrData d # es) = d @ stderrOf es"
| "stderrOf (e # es) = stderrOf es"

text \<open>The executor's state when only output has arrived so far.\<close>

definition buffered :: "PythonService \<Rightarrow> jsstring \<Rightarrow> event list \<Rightarrow> invocation" where
  "buffered this p ds = (spawn this p)\<lparr>outputText := stdoutOf ds, errorOutput := stderrOf ds\<rparr>"

text \<open>A field is populated when it is set to a non-empty string.\<close>

definition populated :: "jsstring option \<Rightarrow> bool" where
  "populated x = (case x of None \<Rightarrow> False | Some t \<Rightarrow> t \<noteq> [])"

definition jobInvariant :: "audioData \<Rightarrow> bool" where
  "jobInvariant d =
     (case status d of
        Uploaded \<Rightarrow> outputPath d = None \<and> error d = None
      | Processing \<Rightarrow> outputPath d = None \<and> error d = None
      | Completed \<Rightarrow> populated (outputPath d) \<and> error d = None
      | Failed \<Rightarrow> outputPath d = None \<and> populated (error d))"

text \<open>The server once a request for \<open>a\<close> has set its job to processing and spawned.\<close>

definition started :: "PythonService \<Rightarrow> jsstring \<Rightarrow> audioData \<Rightarrow> server \<Rightarrow> server" where
  "started svc a j srv =
     srv\<lparr>audioFiles := (audioFiles srv)(a \<mapsto> j\<lparr>status := Processing\<rparr>),
         spawned := spawned srv @ [[pythonPath svc, scriptPath svc, filepath j]]\<rparr>"

text \<open>
  An entry is stale when it is a regular file older than \<open>maxAge\<close>; the sweeper can remove
  it when, besides, \<open>unlink\<close> is allowed on it.
\<close>

definition stale :: "int \<Rightarrow> int \<Rightarrow> node \<Rightarrow> bool" where
  "stale now maxAge' n \<longleftrightarrow> isFile n \<and> now - mtime n > maxAge'"

definition doomed :: "int \<Rightarrow> int \<Rightarrow> jsstring \<times> node \<Rightarrow> bool" where
  "doomed now maxAge' e \<longleftrightarrow> stale now maxAge' (snd e) \<and> removable (snd e)"

definition listing :: "folder \<Rightarrow> (jsstring \<times> node) list" where
  "listing f = (case f of Present es \<Rightarrow> es | Missing \<Rightarrow> [] | Unavailable \<Rightarrow> [])"

text \<open>
  \<open>victim\<close>: the name is that of an entry the sweeper can remove. \<open>putFolder\<close>: the world
  with one directory replaced.
\<close>

definition victim :: "int \<Rightarrow> int \<Rightarrow> (jsstring \<times> node) list \<Rightarrow> jsstring \<Rightarrow> bool" where
  "victim now maxAge' es file =
     (case map_of es file of None \<Rightarrow> False | Some n \<Rightarrow> doomed now maxAge' (file, n))"

definition putFolder :: "jsstring \<Rightarrow> folder \<Rightarrow> world \<Rightarrow> world" where
  "putFolder d f w = w\<lparr>disk := (disk w)(d := f)\<rparr>"

text \<open>
  Reading a decimal numeral: \<open>decimalValue\<close> is the integer a text of digits with an
  optional leading minus sign denotes. \<open>canonicalNumeral\<close>: the text is such a numeral
  and is the only one of its value, with no leading zero and no minus zero.
\<close>

definition digitsValue :: "jsstring \<Rightarrow> nat" where
  "digitsValue s = foldl (\<lambda>a c. 10 * a + (unat c - 48)) 0 s"

definition decimalValue :: "jsstring \<Rightarrow> int" where
  "decimalValue s =
     (case s of
        [] \<Rightarrow> 0
      | c # cs \<Rightarrow> if c = 0x2D then - int (digitsValue cs) else int (digitsValue s))"

definition isDigit :: "16 word \<Rightarrow> bool" where
  "isDigit c \<longleftrightarrow> 0x30 \<le> c \<and> c \<le> 0x39"

definition canonicalDigits :: "jsstring \<Rightarrow> bool" where
  "canonicalDigits s \<longleftrightarrow> s \<noteq> [] \<and> list_all isDigit s \<and> (hd s = 0x30 \<longrightarrow> length s = 1)"

definition canonicalNumeral :: "jsstring \<Rightarrow> bool" where
  "canonicalNumeral s =
     (case s of
        [] \<Rightarrow> False
      | c # cs \<Rightarrow> if c = 0x2D then canonicalDigits cs \<and> cs \<noteq> [0x30] else canonicalDigits s)"

text \<open>
  \<open>stepsFor b ts schedule\<close>: the steps of a schedule that resume a request for job \<open>b\<close>,
  in their order; \<open>ts\<close> are the requests in flight when the schedule starts.
  \<open>inStep b ts\<close> relates two states of the event loop that agree on job \<open>b\<close>: on its
  record and on each of its requests.
\<close>

definition stepsFor :: "jsstring \<Rightarrow> task list \<Rightarrow> (nat \<times> resumption) list \<Rightarrow> (nat \<times> resumption) list" where
  "stepsFor b ts schedule =
     filter (\<lambda>x. fst x < length ts \<and> taskId (ts ! fst x) = Some b) schedule"

definition inStep :: "jsstring \<Rightarrow> task list \<Rightarrow> task list \<times> server \<Rightarrow> task list \<times> server \<Rightarrow> bool" where
  "inStep b ts0 st1 st2 \<longleftrightarrow>
     length (fst st1) = length ts0 \<and> length (fst st2) = length ts0 \<and>
     audioFiles (snd st1) b = audioFiles (snd st2) b \<and>
     (\<forall>i<length ts0. taskId (ts0 ! i) = Some b \<longrightarrow>
        fst st1 ! i = fst st2 ! i \<and>
        (taskId (fst st1 ! i) = Some b \<or> taskId (fst st1 ! i) = None)) \<and>
     (\<forall>i<length ts0. taskId (ts0 ! i) \<noteq> Some b \<longrightarrow> taskId (fst st1 ! i) \<noteq> Some b)"

text \<open>
  An interference that removes a file just before the sweeper's \<open>unlink\<close> of it takes
  effect, as a second sweeper or another process may.
\<close>

definition vanishBeforeUnlink :: interference where
  "vanishBeforeUnlink n call w =
     (case call of
        Unlink d file \<Rightarrow>
          w\<lparr>disk := (disk w)(d := (case disk w d of
                                     Present es \<Rightarrow> Present (filter (\<lambda>e. fst e \<noteq> file) es)
                                   | Missing \<Rightarrow> Missing
                                   | Unavailable \<Rightarrow> Unavailable))\<rparr>
      | Mkdir d \<Rightarrow> w
      | Readdir d \<Rightarrow> w
      | Stat d file \<Rightarrow> w)"

section \<open>Concrete inputs\<close>

definition defaultService :: PythonService where
  "defaultService =
     \<lparr>pythonPath = js ''python'', scriptPath = js ''ai_engine/pitch_correction.py'',
      timeout = 30000\<rparr>"

definition exampleFile :: multerFile where
  "exampleFile =
     MulterFile (js ''abc.wav'') (js ''audio/wav'') 1024
       (js ''uploads/1700000000000-abc.wav'') (js ''1700000000000-abc.wav'')"

definition exampleId :: jsstring where
  "exampleId = js ''3f2b8c1e-5d4a-4e6f-9a7b-0c1d2e3f4a5b''"

definition exampleJob :: audioData where
  "exampleJob =
     \<lparr>audio_id = exampleId, filename = js ''abc.wav'', fileSize = 1024, duration = 0,
      format = js ''wav'', uploadedAt = 1700000000000, status = Uploaded,
      filepath = js ''uploads/1700000000000-abc.wav'',
      storedFilename = js ''1700000000000-abc.wav'',
      outputPath = None, processingTime = None, completedAt = None,
      error = None, failedAt = None\<rparr>"

definition emptyServer :: server where
  "emptyServer = \<lparr>audioFiles = Map.empty, spawned = []\<rparr>"

definition exampleServer :: server where
  "exampleServer = \<lparr>audioFiles = [exampleId \<mapsto> exampleJob], spawned = []\<rparr>"

definition exampleSurroundings :: "bool \<Rightarrow> event list \<Rightarrow> surroundings" where
  "exampleSurroundings onDisk evs =
     \<lparr>fileExists = (\<lambda>p. onDisk), events = evs, startTime = 1700000001000,
      endTime = 1700000001500, stamp = 1700000001501\<rparr>"

text \<open>
  Two requests for the same job, both entered before either is resumed; the event loop
  resumes them alternately. The first worker succeeds, the second fails.
\<close>

definition sameIdRace :: "task list \<times> server" where
  "sameIdRace =
     runSchedule defaultService
       [(0, Accessed True), (1, Accessed True),
        (0, Settled (Resolve (js ''/outputs/abc-tuned.wav'')) 1700000001500 1700000001501),
        (1, Settled (Reject (js ''Audio file not found'')) 1700000001600 1700000001601)]
       ([processController_enter 1700000001000 (Some exampleId) exampleServer,
         processController_enter 1700000001001 (Some exampleId) exampleServer],
        exampleServer)"

text \<open>
  Two jobs with a request each, both entered before either is resumed. The event loop
  resumes the first, then runs the second to its end (its worker fails), then settles
  the first (its worker succeeds).
\<close>

definition otherId :: jsstring where
  "otherId = js ''9a1c0e52-77b3-4d2e-8f10-6b5a4c3d2e1f''"

definition otherJob :: audioData where
  "otherJob =
     \<lparr>audio_id = otherId, filename = js ''xyz.wav'', fileSize = 2048, duration = 0,
      format = js ''wav'', uploadedAt = 1700000000500, status = Uploaded,
      filepath = js ''uploads/1700000000500-xyz.wav'',
      storedFilename = js ''1700000000500-xyz.wav'',
      outputPath = None, processingTime = None, completedAt = None,
      error = None, failedAt = None\<rparr>"

definition twoJobs :: server where
  "twoJobs = \<lparr>audioFiles = [exampleId \<mapsto> exampleJob, otherId \<mapsto> otherJob], spawned = []\<rparr>"

definition twoRequests :: "task list" where
  "twoRequests = [AwaitAccess exampleId 1700000001000, AwaitAccess otherId 1700000001001]"

definition interleaved :: "(nat \<times> resumption) list" where
  "interleaved =
     [(0, Accessed True), (1, Accessed True),
      (1, Settled (Reject (js ''Audio file not found'')) 1700000001600 1700000001601),
      (0, Settled (Resolve (js ''/outputs/abc-tuned.wav'')) 1700000001500 1700000001501)]"

text \<open>
  Directories for the sweeper: one file modified ten minutes ago beside one modified a
  minute ago; one old file that \<open>unlink\<close> refuses to remove; one old file alone.
\<close>

definition exampleDir :: jsstring where
  "exampleDir = js ''uploads''"

definition tenAndOne :: world where
  "tenAndOne =
     \<lparr>disk = (\<lambda>d. if d = exampleDir
                   then Present
                     [(js ''old.wav'', \<lparr>isFile = True, mtime = 1699999400000, removable = True\<rparr>),
                      (js ''new.wav'', \<lparr>isFile = True, mtime = 1699999940000, removable = True\<rparr>)]
                   else Missing),
      time = 1700000000000\<rparr>"

definition pinnedWorld :: world where
  "pinnedWorld =
     \<lparr>disk = (\<lambda>d. if d = exampleDir
                   then Present
                     [(js ''open.wav'', \<lparr>isFile = True, mtime = 1699999400000, removable = False\<rparr>)]
                   else Missing),
      time = 1700000000000\<rparr>"

definition oneOldFile :: world where
  "oneOldFile =
     \<lparr>disk = (\<lambda>d. if d = exampleDir
                   then Present
                     [(js ''old.wav'', \<lparr>isFile = True, mtime = 1699999400000, removable = True\<rparr>)]
                   else Missing),
      time = 1700000000000\<rparr>"

definition boot :: "world \<Rightarrow> sys" where
  "boot w = \<lparr>world = w, awaited = 0, unlinked = []\<rparr>"

definition exampleScheduler :: CleanupScheduler where
  "exampleScheduler = \<lparr>uploadDir = js ''uploads'', outputDir = js ''outputs'', maxAge = 300000\<rparr>"

section \<open>Verified properties\<close>

subsection \<open>The worker promise settles once\<close>

lemma run_data:
  "\<forall>e\<in>set ds. \<not> terminal e \<Longrightarrow>
   foldl (handle this) v ds =
     v\<lparr>outputText := outputText v @ stdoutOf ds, errorOutput := errorOutput v @ stderrOf ds\<rparr>"
proof (induction ds arbitrary: v)
  case Nil
  then show ?case by simp
next
  case (Cons e ds)
  then show ?case
    by (cases e) (simp_all add: onStdout_def onStderr_def)
qed

lemma handle_completed:
  "processCompleted v \<Longrightarrow>
   processCompleted (handle this v e) \<and> settled (handle this v e) = settled v \<and>
   killed (handle this v e) = killed v"
  by (cases e) (simp_all add: onStdout_def onStderr_def onClose_def onError_def onTimeout_def)

lemma run_completed:
  "processCompleted v \<Longrightarrow>
   processCompleted (foldl (handle this) v es) \<and> settled (foldl (handle this) v es) = settled v \<and>
   killed (foldl (handle this) v es) = killed v"
proof (induction es arbitrary: v)
  case Nil
  then show ?case by simp
next
  case (Cons e es)
  from Cons.prems have h: "processCompleted (handle this v e)"
    "settled (handle this v e) = settled v" "killed (handle this v e) = killed v"
    using handle_completed by blast+
  from Cons.IH [OF h(1)] h show ?case by simp
qed

lemma handle_terminal:
  "\<not> processCompleted v \<Longrightarrow> terminal e \<Longrightarrow>
   processCompleted (handle this v e) \<and> \<not> timeoutId (handle this v e) \<and>
   length (settled (handle this v e)) = Suc (length (settled v))"
  by (cases e) (simp_all add: onClose_def onError_def onTimeout_def Let_def)

lemma spawn_fields [simp]:
  "outputText (spawn this p) = []" "errorOutput (spawn this p) = []"
  "timeoutId (spawn this p)" "\<not> processCompleted (spawn this p)"
  "killed (spawn this p) = []" "settled (spawn this p) = []"
  by (simp_all add: spawn_def)

lemma buffered_fields [simp]:
  "outputText (buffered this p ds) = stdoutOf ds" "errorOutput (buffered this p ds) = stderrOf ds"
  "timeoutId (buffered this p ds)" "\<not> processCompleted (buffered this p ds)"
  "killed (buffered this p ds) = []" "settled (buffered this p ds) = []"
  by (simp_all add: buffered_def)

lemma processAudio_pending:
  assumes "\<forall>e\<in>set ds. \<not> terminal e"
  shows "processAudio this p ds = buffered this p ds"
  using run_data [OF assms, of this "spawn this p"] by (simp add: processAudio_def buffered_def)

lemma processAudio_split:
  assumes "\<forall>e\<in>set ds. \<not> terminal e"
  shows "processAudio this p (ds @ e # rest) =
         foldl (handle this) (handle this (buffered this p ds) e) rest"
  using run_data [OF assms, of this "spawn this p"] by (simp add: processAudio_def buffered_def)

lemma processAudio_first_terminal:
  assumes "\<forall>x\<in>set ds. \<not> terminal x" and "terminal e"
  shows "settled (processAudio this p (ds @ e # rest)) = settled (handle this (buffered this p ds) e)"
    and "killed (processAudio this p (ds @ e # rest)) = killed (handle this (buffered this p ds) e)"
    and "length (settled (handle this (buffered this p ds) e)) = 1"
proof -
  have c: "processCompleted (handle this (buffered this p ds) e)"
    and l: "length (settled (handle this (buffered this p ds) e)) = Suc (length (settled (buffered this p ds)))"
    using handle_terminal [of "buffered this p ds" e this] assms(2) by simp_all
  show "settled (processAudio this p (ds @ e # rest)) = settled (handle this (buffered this p ds) e)"
    using run_completed [OF c, of this rest] by (simp add: processAudio_split [OF assms(1)])
  show "killed (processAudio this p (ds @ e # rest)) = killed (handle this (buffered this p ds) e)"
    using run_completed [OF c, of this rest] by (simp add: processAudio_split [OF assms(1)])
  show "length (settled (handle this (buffered this p ds) e)) = 1"
    using l by simp
qed

lemma first_terminal:
  "\<exists>e\<in>set evs. terminal e \<Longrightarrow>
   \<exists>ds e rest. evs = ds @ e # rest \<and> (\<forall>x\<in>set ds. \<not> terminal x) \<and> terminal e"
  using split_list_first_prop [of evs terminal] by blast

text \<open>
  Claim C5. Whatever callbacks run and in whatever order, \<open>resolve\<close> and \<open>reject\<close> are
  called at most once in total; none is called exactly as long as neither exit, spawn error
  nor timer has occurred, and until then the timer stays armed. The first of the three
  decides: every later callback, a late timer included, leaves the settlement and the
  signals sent as they were.
\<close>

theorem first_resolution_wins:
  "length (settled (processAudio this p evs)) \<le> 1 \<and>
   ((settled (processAudio this p evs) = []) = (\<forall>e\<in>set evs. \<not> terminal e)) \<and>
   ((\<forall>e\<in>set evs. \<not> terminal e) \<longrightarrow> timeoutId (processAudio this p evs)) \<and>
   ((\<forall>x\<in>set ds. \<not> terminal x) \<and> terminal e \<longrightarrow>
      settled (processAudio this p (ds @ e # rest)) = settled (processAudio this p (ds @ [e])) \<and>
      killed (processAudio this p (ds @ e # rest)) = killed (processAudio this p (ds @ [e])) \<and>
      length (settled (processAudio this p (ds @ e # rest))) = 1)"
proof -
  have a: "length (settled (processAudio this p evs)) \<le> 1 \<and>
           ((settled (processAudio this p evs) = []) = (\<forall>e\<in>set evs. \<not> terminal e)) \<and>
           ((\<forall>e\<in>set evs. \<not> terminal e) \<longrightarrow> timeoutId (processAudio this p evs))"
  proof (cases "\<forall>e\<in>set evs. \<not> terminal e")
    case True
    then show ?thesis by (simp add: processAudio_pending)
  next
    case False
    then obtain ds e rest where evs: "evs = ds @ e # rest"
      and ds: "\<forall>x\<in>set ds. \<not> terminal x" and e: "terminal e"
      using first_terminal [of evs] by blast
    have "length (settled (processAudio this p evs)) = 1"
      using processAudio_first_terminal [OF ds e, of this p] by (simp add: evs)
    with False show ?thesis by auto
  qed
  have b: "(\<forall>x\<in>set ds. \<not> terminal x) \<and> terminal e \<longrightarrow>
      settled (processAudio this p (ds @ e # rest)) = settled (processAudio this p (ds @ [e])) \<and>
      killed (processAudio this p (ds @ e # rest)) = killed (processAudio this p (ds @ [e])) \<and>
      length (settled (processAudio this p (ds @ e # rest))) = 1"
  proof (intro impI, elim conjE)
    assume ds: "\<forall>x\<in>set ds. \<not> terminal x" and e: "terminal e"
    show "settled (processAudio this p (ds @ e # rest)) = settled (processAudio this p (ds @ [e])) \<and>
      killed (processAudio this p (ds @ e # rest)) = killed (processAudio this p (ds @ [e])) \<and>
      length (settled (processAudio this p (ds @ e # rest))) = 1"
      using processAudio_first_terminal(1,2) [OF ds e, of this p rest]
        processAudio_first_terminal(1,2) [OF ds e, of this p "[]"]
        processAudio_first_terminal(3) [OF ds e, of this p] by simp
  qed
  from a b show ?thesis by blast
qed

theorem first_resolution_wins_witness:
  "\<not> terminal (StdoutData (js ''/outputs/abc-tuned.wav'')) \<and>
   terminal (Close (Some 0)) \<and>
   settled (processAudio defaultService (js ''uploads/abc.wav'')
     ([StdoutData (js ''/outputs/abc-tuned.wav'')] @ Close (Some 0) # [TimerFired, SpawnError (js ''late'')])) =
   [Resolve (js ''/outputs/abc-tuned.wav'')] \<and>
   killed (processAudio defaultService (js ''uploads/abc.wav'')
     ([StdoutData (js ''/outputs/abc-tuned.wav'')] @ Close (Some 0) # [TimerFired, SpawnError (js ''late'')])) = []"
proof -
  have run: "settled (processAudio defaultService (js ''uploads/abc.wav'')
               ([StdoutData (js ''/outputs/abc-tuned.wav'')] @ [Close (Some 0)])) =
             [Resolve (js ''/outputs/abc-tuned.wav'')]"
           "killed (processAudio defaultService (js ''uploads/abc.wav'')
               ([StdoutData (js ''/outputs/abc-tuned.wav'')] @ [Close (Some 0)])) = []"
    by code_simp+
  show ?thesis
    using first_resolution_wins [of defaultService "js ''uploads/abc.wav''" "[]"
      "[StdoutData (js ''/outputs/abc-tuned.wav'')]" "Close (Some 0)"
      "[TimerFired, SpawnError (js ''late'')]"] run
    by simp
qed

subsection \<open>The failure message of a non-zero exit\<close>

lemma stripPrefix_Some: "stripPrefix p s = Some r \<Longrightarrow> s = p @ r"
  by (induction p s rule: stripPrefix.induct) (auto split: if_splits)

lemma stripPrefix_append: "stripPrefix p (p @ r) = Some r"
  by (induction p) auto

lemma colon_not_type: "\<not> isTypeChar 0x3A"
  by (simp add: isTypeChar_def)

lemma matchAt_Some:
  assumes "matchAt s = Some (errorType, detail)"
  shows "\<exists>rest. s = js ''ERROR:'' @ errorType @ [0x3A] @ detail @ rest \<and>
           errorType \<noteq> [] \<and> (\<forall>c\<in>set errorType. isTypeChar c) \<and>
           detail \<noteq> [] \<and> (\<forall>c\<in>set detail. \<not> isLineTerminator c) \<and>
           (rest = [] \<or> isLineTerminator (hd rest))"
proof -
  from assms obtain r where r: "stripPrefix (js ''ERROR:'') s = Some r"
    by (auto simp: matchAt_def split: option.splits)
  from assms r obtain r' where d: "dropWhile isTypeChar r = 0x3A # r'"
    and ty: "errorType = takeWhile isTypeChar r" "errorType \<noteq> []"
    and msg: "detail = takeWhile (\<lambda>c. \<not> isLineTerminator c) r'" "detail \<noteq> []"
    by (auto simp: matchAt_def Let_def split: option.splits list.splits if_splits)
  have "r = errorType @ 0x3A # r'"
    using takeWhile_dropWhile_id [of isTypeChar r] d ty(1) by simp
  moreover have "r' = detail @ dropWhile (\<lambda>c. \<not> isLineTerminator c) r'"
    using msg(1) by simp
  moreover have "dropWhile (\<lambda>c. \<not> isLineTerminator c) r' = [] \<or>
                 isLineTerminator (hd (dropWhile (\<lambda>c. \<not> isLineTerminator c) r'))"
    using hd_dropWhile [of "\<lambda>c. \<not> isLineTerminator c" r'] by auto
  moreover have "\<forall>c\<in>set errorType. isTypeChar c"
    using ty(1) by (auto dest: set_takeWhileD)
  moreover have "\<forall>c\<in>set detail. \<not> isLineTerminator c"
    using msg(1) by (auto dest: set_takeWhileD)
  ultimately show ?thesis
    using stripPrefix_Some [OF r] ty(2) msg(2) by (metis append_Cons append_Nil)
qed

lemma matchAt_complete:
  assumes "errorType \<noteq> []" "\<forall>c\<in>set errorType. isTypeChar c"
    and "detail \<noteq> []" "\<forall>c\<in>set detail. \<not> isLineTerminator c"
  shows "matchAt (js ''ERROR:'' @ errorType @ [0x3A] @ detail @ rest) \<noteq> None"
proof -
  have t: "takeWhile isTypeChar (errorType @ 0x3A # detail @ rest) = errorType"
    using assms(2) colon_not_type by simp
  have d: "dropWhile isTypeChar (errorType @ 0x3A # detail @ rest) = 0x3A # detail @ rest"
    using assms(2) colon_not_type by simp
  have m: "takeWhile (\<lambda>c. \<not> isLineTerminator c) (detail @ rest) \<noteq> []"
    using assms(3,4) by (cases detail) auto
  show ?thesis
    using t d m assms(1) by (simp add: matchAt_def stripPrefix_append)
qed

lemma matchAt_Nil: "matchAt [] = None"
  by (simp add: matchAt_def js_def)

lemma errorMatch_complete: "matchAt m \<noteq> None \<Longrightarrow> errorMatch (pre @ m) \<noteq> None"
proof (induction pre)
  case Nil
  then show ?case by (cases m) (auto simp: matchAt_Nil split: option.splits)
next
  case (Cons c pre)
  then show ?case by (auto split: option.splits)
qed

lemma errorMatch_sound:
  "errorMatch s = Some m \<Longrightarrow> \<exists>pre suf. s = pre @ suf \<and> matchAt suf = Some m"
proof (induction s)
  case Nil
  then show ?case by simp
next
  case (Cons c s)
  show ?case
  proof (cases "matchAt (c # s)")
    case None
    with Cons.prems have "errorMatch s = Some m" by simp
    from Cons.IH [OF this] obtain pre suf where "s = pre @ suf" "matchAt suf = Some m" by blast
    then have "c # s = (c # pre) @ suf \<and> matchAt suf = Some m" by simp
    then show ?thesis by blast
  next
    case (Some a)
    with Cons.prems have "matchAt (c # s) = Some m" by simp
    then have "c # s = [] @ (c # s) \<and> matchAt (c # s) = Some m" by simp
    then show ?thesis by blast
  qed
qed

lemma errorMatch_captures:
  assumes "errorMatch err = Some (errorType, detail)"
  shows "\<exists>pre rest.
           err = pre @ js ''ERROR:'' @ errorType @ [0x3A] @ detail @ rest \<and>
           errorType \<noteq> [] \<and> (\<forall>c\<in>set errorType. isTypeChar c) \<and>
           detail \<noteq> [] \<and> (\<forall>c\<in>set detail. \<not> isLineTerminator c) \<and>
           (rest = [] \<or> isLineTerminator (hd rest))"
proof -
  from errorMatch_sound [OF assms] obtain pre suf
    where s: "err = pre @ suf" and m: "matchAt suf = Some (errorType, detail)" by blast
  from matchAt_Some [OF m] s show ?thesis by blast
qed

lemma errorMatch_pattern:
  "(errorMatch err \<noteq> None) =
   (\<exists>pre errorType detail rest.
      err = pre @ js ''ERROR:'' @ errorType @ [0x3A] @ detail @ rest \<and>
      errorType \<noteq> [] \<and> (\<forall>c\<in>set errorType. isTypeChar c) \<and>
      detail \<noteq> [] \<and> (\<forall>c\<in>set detail. \<not> isLineTerminator c))"
proof
  assume "errorMatch err \<noteq> None"
  then obtain errorType detail where "errorMatch err = Some (errorType, detail)" by auto
  from errorMatch_sound [OF this] obtain pre suf
    where s: "err = pre @ suf" and m: "matchAt suf = Some (errorType, detail)" by blast
  from matchAt_Some [OF m] s
  show "\<exists>pre errorType detail rest.
      err = pre @ js ''ERROR:'' @ errorType @ [0x3A] @ detail @ rest \<and>
      errorType \<noteq> [] \<and> (\<forall>c\<in>set errorType. isTypeChar c) \<and>
      detail \<noteq> [] \<and> (\<forall>c\<in>set detail. \<not> isLineTerminator c)"
    by blast
next
  assume "\<exists>pre errorType detail rest.
      err = pre @ js ''ERROR:'' @ errorType @ [0x3A] @ detail @ rest \<and>
      errorType \<noteq> [] \<and> (\<forall>c\<in>set errorType. isTypeChar c) \<and>
      detail \<noteq> [] \<and> (\<forall>c\<in>set detail. \<not> isLineTerminator c)"
  then obtain pre errorType detail rest where
    e: "err = pre @ js ''ERROR:'' @ errorType @ [0x3A] @ detail @ rest"
    and c: "errorType \<noteq> []" "\<forall>c\<in>set errorType. isTypeChar c"
      "detail \<noteq> []" "\<forall>c\<in>set detail. \<not> isLineTerminator c"
    by blast
  show "errorMatch err \<noteq> None"
    using errorMatch_complete [OF matchAt_complete [OF c]] e by simp
qed

lemma js_Cons: "js (c # cs) = of_char c # js cs"
  by (simp add: js_def)

lemma js_nonempty: "js (c # cs) \<noteq> []"
  by (simp add: js_def)

lemma table_keys_distinct:
  "js ''FILE_NOT_FOUND'' \<noteq> js ''INVALID_ARGUMENTS''"
  "js ''FILE_NOT_FOUND'' \<noteq> js ''PROCESSING_FAILED''"
  "js ''INVALID_ARGUMENTS'' \<noteq> js ''PROCESSING_FAILED''"
  by (simp_all add: js_def)

lemma parseErrorMessage_cases:
  "parseErrorMessage err =
     (case errorMatch err of
        Some (errorType, detail) \<Rightarrow>
          if errorType = js ''FILE_NOT_FOUND'' then js ''Audio file not found''
          else if errorType = js ''INVALID_ARGUMENTS''
          then js ''Invalid arguments provided to Python engine''
          else if errorType = js ''PROCESSING_FAILED''
          then js ''Audio processing failed: '' @ trim detail
          else js ''Processing error: '' @ trim detail
      | None \<Rightarrow> if trim err = [] then js ''Unknown Python processing error'' else trim err)"
  using table_keys_distinct
  by (auto simp: parseErrorMessage_def errorMessages_def jsOr_def Let_def js_Cons
           split: option.splits)

lemma parseErrorMessage_nonempty: "parseErrorMessage err \<noteq> []"
  by (auto simp: parseErrorMessage_cases js_Cons split: option.splits)

lemma close_nonzero:
  assumes "\<forall>x\<in>set ds. \<not> terminal x" and "code \<noteq> Some 0"
  shows "promiseResult (processAudio this p (ds @ Close code # rest)) =
         Some (Reject (parseErrorMessage (stderrOf ds)))"
  using processAudio_first_terminal(1) [OF assms(1), of "Close code" this p rest] assms(2)
  by (simp add: promiseResult_def onClose_def)

text \<open>
  Claim C2, as amended. When the subprocess exits with a non-zero code (or is killed: code
  \<open>null\<close>) before timer and spawn error, the promise is rejected with
  \<open>parseErrorMessage\<close> of the accumulated standard error. That message is: for a match
  of \<open>ERROR:<TYPE>:<detail>\<close>, ``Audio file not found'' for \<open>FILE_NOT_FOUND\<close>,
  ``Invalid arguments provided to Python engine'' for \<open>INVALID_ARGUMENTS\<close>,
  ``Audio processing failed: <detail>'' for \<open>PROCESSING_FAILED\<close> and
  ``Processing error: <detail>'' for any other type, with the detail trimmed; without a
  match, the trimmed standard error, or ``Unknown Python processing error'' when that is
  empty. There is a match exactly when the text contains \<open>ERROR:\<close>, a non-empty run of
  capitals and underscores, a colon and at least one character that is not a line
  terminator; the type captured is such a run and the detail captured goes on to the end
  of its line.
\<close>

theorem nonzero_exit_message:
  "((\<forall>x\<in>set ds. \<not> terminal x) \<and> code \<noteq> Some 0 \<longrightarrow>
      promiseResult (processAudio this p (ds @ Close code # rest)) =
        Some (Reject (parseErrorMessage (stderrOf ds)))) \<and>
   parseErrorMessage err =
     (case errorMatch err of
        Some (errorType, detail) \<Rightarrow>
          if errorType = js ''FILE_NOT_FOUND'' then js ''Audio file not found''
          else if errorType = js ''INVALID_ARGUMENTS''
          then js ''Invalid arguments provided to Python engine''
          else if errorType = js ''PROCESSING_FAILED''
          then js ''Audio processing failed: '' @ trim detail
          else js ''Processing error: '' @ trim detail
      | None \<Rightarrow> if trim err = [] then js ''Unknown Python processing error'' else trim err) \<and>
   (errorMatch err = Some (capturedType, capturedDetail) \<longrightarrow>
      (\<exists>pre rest.
         err = pre @ js ''ERROR:'' @ capturedType @ [0x3A] @ capturedDetail @ rest \<and>
         capturedType \<noteq> [] \<and> (\<forall>c\<in>set capturedType. isTypeChar c) \<and>
         capturedDetail \<noteq> [] \<and> (\<forall>c\<in>set capturedDetail. \<not> isLineTerminator c) \<and>
         (rest = [] \<or> isLineTerminator (hd rest)))) \<and>
   ((errorMatch err \<noteq> None) =
      (\<exists>pre errorType detail rest.
         err = pre @ js ''ERROR:'' @ errorType @ [0x3A] @ detail @ rest \<and>
         errorType \<noteq> [] \<and> (\<forall>c\<in>set errorType. isTypeChar c) \<and>
         detail \<noteq> [] \<and> (\<forall>c\<in>set detail. \<not> isLineTerminator c)))"
  using close_nonzero [of ds code this p rest] parseErrorMessage_cases [of err]
    errorMatch_pattern [of err] errorMatch_captures [of err capturedType capturedDetail]
  by blast

theorem nonzero_exit_message_witness:
  "\<not> terminal (StderrData (js ''ERROR:FILE_NOT_FOUND:Input file not found: /tmp/x.wav'')) \<and>
   Some 1 \<noteq> Some (0::int) \<and>
   promiseResult (processAudio defaultService (js ''/tmp/x.wav'')
     ([StderrData (js ''ERROR:FILE_NOT_FOUND:Input file not found: /tmp/x.wav'')] @
      Close (Some 1) # [])) = Some (Reject (js ''Audio file not found'')) \<and>
   parseErrorMessage (js ''Some random error message'') = js ''Some random error message''"
proof -
  have m: "errorMatch (js ''ERROR:FILE_NOT_FOUND:Input file not found: /tmp/x.wav'') =
           Some (js ''FILE_NOT_FOUND'', js ''Input file not found: /tmp/x.wav'')"
    by code_simp
  have n: "errorMatch (js ''Some random error message'') = None"
    by code_simp
  have t: "trim (js ''Some random error message'') = js ''Some random error message''"
    by code_simp
  have t': "js ''Some random error message'' \<noteq> []"
    by (simp add: js_def)
  show ?thesis
    using nonzero_exit_message [of
        "[StderrData (js ''ERROR:FILE_NOT_FOUND:Input file not found: /tmp/x.wav'')]"
        "Some 1" defaultService "js ''/tmp/x.wav''" "[]"
        "js ''ERROR:FILE_NOT_FOUND:Input file not found: /tmp/x.wav''"]
      nonzero_exit_message [of "[]" "Some 1" defaultService "js ''/tmp/x.wav''" "[]"
        "js ''Some random error message''"]
      m n t t'
    by simp
qed

text \<open>
  The claim as stated names the generic message ``Unknown processing error''; on empty
  standard error the source answers with a different text.
\<close>

theorem unknown_error_wording_counterexample:
  "promiseResult (processAudio defaultService (js ''/tmp/x.wav'') [Close (Some 1)]) =
     Some (Reject (js ''Unknown Python processing error'')) \<and>
   js ''Unknown Python processing error'' \<noteq> js ''Unknown processing error''"
  by code_simp

subsection \<open>The process controller\<close>

lemma controller_enter:
  "audioFiles srv a = Some j \<Longrightarrow> a \<noteq> [] \<Longrightarrow>
   processController_enter t0 (Some a) srv = AwaitAccess a t0"
  by (simp add: processController_enter_def)

lemma controller_missing_file:
  assumes "audioFiles srv a = Some j" "a \<noteq> []" "\<not> fileExists env (filepath j)"
  shows "processController_processAudio svc env (Some a) srv =
         (Some (Response 404 (Failure (js ''File audio tidak ditemukan di server''))), srv)"
  using assms
  by (simp add: processController_processAudio_def controller_enter
      processController_accessed_def)

lemma controller_accessed:
  assumes "audioFiles srv a = Some j"
  shows "processController_accessed svc True a t0 srv = (AwaitWorker a t0, started svc a j srv)"
  using assms
  by (simp add: processController_accessed_def updateJob_def started_def spawn_def)

lemma controller_pending:
  assumes "audioFiles srv a = Some j" "a \<noteq> []" "fileExists env (filepath j)"
    and "promiseResult (processAudio svc (filepath j) (events env)) = None"
  shows "processController_processAudio svc env (Some a) srv = (None, started svc a j srv)"
  using assms
  by (simp add: processController_processAudio_def controller_enter controller_accessed)

lemma controller_resolved:
  assumes "audioFiles srv a = Some j" "a \<noteq> []" "fileExists env (filepath j)"
    and "promiseResult (processAudio svc (filepath j) (events env)) = Some (Resolve out)"
  shows "processController_processAudio svc env (Some a) srv =
         (Some (Response 200
            (ProcessData a Completed out (of_int (endTime env - startTime env) / 1000))),
          srv\<lparr>audioFiles := (audioFiles srv)(a \<mapsto>
                 j\<lparr>status := Completed, outputPath := Some out,
                   processingTime := Some (of_int (endTime env - startTime env) / 1000),
                   completedAt := Some (stamp env)\<rparr>),
              spawned := spawned srv @ [[pythonPath svc, scriptPath svc, filepath j]]\<rparr>)"
  using assms
  by (simp add: processController_processAudio_def controller_enter controller_accessed
      processController_settled_def updateJob_def started_def Let_def)

lemma controller_rejected:
  assumes "audioFiles srv a = Some j" "a \<noteq> []" "fileExists env (filepath j)"
    and "promiseResult (processAudio svc (filepath j) (events env)) = Some (Reject msg)"
  shows "processController_processAudio svc env (Some a) srv =
         (Some (Response 500 (Failure (js ''Gagal memproses audio: '' @ msg))),
          srv\<lparr>audioFiles := (audioFiles srv)(a \<mapsto>
                 j\<lparr>status := Failed, error := Some msg, failedAt := Some (stamp env)\<rparr>),
              spawned := spawned srv @ [[pythonPath svc, scriptPath svc, filepath j]]\<rparr>)"
  using assms
  by (simp add: processController_processAudio_def controller_enter controller_accessed
      processController_settled_def updateJob_def started_def)

lemma close_zero:
  assumes "\<forall>x\<in>set ds. \<not> terminal x"
  shows "promiseResult (processAudio this p (ds @ Close (Some 0) # rest)) =
         Some (if trim (stdoutOf ds) = []
               then Reject (js ''Python process succeeded but returned no output path'')
               else Resolve (trim (stdoutOf ds)))"
  using processAudio_first_terminal(1) [OF assms, of "Close (Some 0)" this p rest]
  by (simp add: promiseResult_def onClose_def Let_def)

lemma timer_first:
  assumes "\<forall>x\<in>set ds. \<not> terminal x"
  shows "promiseResult (processAudio this p (ds @ TimerFired # rest)) =
         Some (Reject (js ''Processing timeout: exceeded '' @ numberToString (timeout this) @ js ''ms''))"
    and "killed (processAudio this p (ds @ TimerFired # rest)) = [SIGTERM]"
  using processAudio_first_terminal(1,2) [OF assms, of TimerFired this p rest]
  by (simp_all add: promiseResult_def onTimeout_def)

text \<open>
  Claim C1. A request for a job that is in the registry and whose file is not on disk is
  answered with 404, ``File audio tidak ditemukan di server'', and leaves the server as it
  was: the job's record is the same record, so its status is what it was and no error or
  failure time is written, and no subprocess has been spawned. (The registry's keys are
  UUIDs, hence non-empty; an empty id is refused before the lookup.)
\<close>

theorem missing_input_leaves_job:
  assumes "audioFiles srv audioId = Some job" and "audioId \<noteq> []"
    and "\<not> fileExists env (filepath job)"
  shows "processController_processAudio pythonService env (Some audioId) srv =
           (Some (Response 404 (Failure (js ''File audio tidak ditemukan di server''))), srv) \<and>
         audioFiles (snd (processController_processAudio pythonService env (Some audioId) srv))
           audioId = Some job \<and>
         spawned (snd (processController_processAudio pythonService env (Some audioId) srv)) =
           spawned srv"
  using controller_missing_file [OF assms, of pythonService] assms(1) by simp

theorem missing_input_leaves_job_witness:
  "audioFiles exampleServer exampleId = Some exampleJob \<and> exampleId \<noteq> [] \<and>
   \<not> fileExists (exampleSurroundings False [Close (Some 0)]) (filepath exampleJob) \<and>
   processController_processAudio defaultService (exampleSurroundings False [Close (Some 0)])
     (Some exampleId) exampleServer =
     (Some (Response 404 (Failure (js ''File audio tidak ditemukan di server''))), exampleServer) \<and>
   status exampleJob = Uploaded \<and> error exampleJob = None \<and> failedAt exampleJob = None"
proof -
  have h: "audioFiles exampleServer exampleId = Some exampleJob" "exampleId \<noteq> []"
    "\<not> fileExists (exampleSurroundings False [Close (Some 0)]) (filepath exampleJob)"
    by (simp_all add: exampleServer_def exampleId_def js_def exampleSurroundings_def)
  show ?thesis
    using missing_input_leaves_job [OF h, of defaultService] h
    by (simp add: exampleJob_def)
qed

text \<open>
  Claim C4. The subprocess exits with code 0 before timer and spawn error. If the trimmed
  standard output is non-empty, the promise resolves with exactly that text, the response
  is 200 and the job becomes completed with that text as its output path. If it is empty,
  the promise is rejected with ``Python process succeeded but returned no output path'',
  the response is 500 and the job becomes failed, with that message as its error.
\<close>

theorem zero_exit_outcome:
  assumes "audioFiles srv audioId = Some job" and "audioId \<noteq> []"
    and "fileExists env (filepath job)"
    and "events env = ds @ Close (Some 0) # rest" and "\<forall>x\<in>set ds. \<not> terminal x"
  shows "(trim (stdoutOf ds) \<noteq> [] \<longrightarrow>
            promiseResult (processAudio pythonService (filepath job) (events env)) =
              Some (Resolve (trim (stdoutOf ds))) \<and>
            fst (processController_processAudio pythonService env (Some audioId) srv) =
              Some (Response 200 (ProcessData audioId Completed (trim (stdoutOf ds))
                      (of_int (endTime env - startTime env) / 1000))) \<and>
            audioFiles (snd (processController_processAudio pythonService env (Some audioId) srv))
              audioId =
              Some (job\<lparr>status := Completed, outputPath := Some (trim (stdoutOf ds)),
                        processingTime := Some (of_int (endTime env - startTime env) / 1000),
                        completedAt := Some (stamp env)\<rparr>)) \<and>
         (trim (stdoutOf ds) = [] \<longrightarrow>
            promiseResult (processAudio pythonService (filepath job) (events env)) =
              Some (Reject (js ''Python process succeeded but returned no output path'')) \<and>
            fst (processController_processAudio pythonService env (Some audioId) srv) =
              Some (Response 500 (Failure (js ''Gagal memproses audio: '' @
                      js ''Python process succeeded but returned no output path''))) \<and>
            audioFiles (snd (processController_processAudio pythonService env (Some audioId) srv))
              audioId =
              Some (job\<lparr>status := Failed,
                        error := Some (js ''Python process succeeded but returned no output path''),
                        failedAt := Some (stamp env)\<rparr>))"
proof (intro conjI impI)
  assume ne: "trim (stdoutOf ds) \<noteq> []"
  have p: "promiseResult (processAudio pythonService (filepath job) (events env)) =
           Some (Resolve (trim (stdoutOf ds)))"
    using close_zero [OF assms(5), of pythonService "filepath job" rest] ne assms(4) by simp
  show "promiseResult (processAudio pythonService (filepath job) (events env)) =
           Some (Resolve (trim (stdoutOf ds)))" by (rule p)
  show "fst (processController_processAudio pythonService env (Some audioId) srv) =
              Some (Response 200 (ProcessData audioId Completed (trim (stdoutOf ds))
                      (of_int (endTime env - startTime env) / 1000)))"
    by (simp add: controller_resolved [OF assms(1-3) p])
  show "audioFiles (snd (processController_processAudio pythonService env (Some audioId) srv))
              audioId =
              Some (job\<lparr>status := Completed, outputPath := Some (trim (stdoutOf ds)),
                        processingTime := Some (of_int (endTime env - startTime env) / 1000),
                        completedAt := Some (stamp env)\<rparr>)"
    by (simp add: controller_resolved [OF assms(1-3) p])
next
  assume e: "trim (stdoutOf ds) = []"
  have p: "promiseResult (processAudio pythonService (filepath job) (events env)) =
           Some (Reject (js ''Python process succeeded but returned no output path''))"
    using close_zero [OF assms(5), of pythonService "filepath job" rest] e assms(4) by simp
  show "promiseResult (processAudio pythonService (filepath job) (events env)) =
           Some (Reject (js ''Python process succeeded but returned no output path''))" by (rule p)
  show "fst (processController_processAudio pythonService env (Some audioId) srv) =
              Some (Response 500 (Failure (js ''Gagal memproses audio: '' @
                      js ''Python process succeeded but returned no output path'')))"
    by (simp add: controller_rejected [OF assms(1-3) p])
  show "audioFiles (snd (processController_processAudio pythonService env (Some audioId) srv))
              audioId =
              Some (job\<lparr>status := Failed,
                        error := Some (js ''Python process succeeded but returned no output path''),
                        failedAt := Some (stamp env)\<rparr>)"
    by (simp add: controller_rejected [OF assms(1-3) p])
qed

text \<open>
  The text of a safe integer reads back as that integer, and is the canonical numeral.
\<close>

lemma digit_unat: "d < 10 \<Longrightarrow> unat (0x30 + of_nat d :: 16 word) = 48 + d"
  by (simp add: unat_word_ariths unat_of_nat)

lemma digit_not_minus: "d < 10 \<Longrightarrow> (0x30 + of_nat d :: 16 word) \<noteq> 0x2D"
proof
  assume d: "d < 10" and e: "(0x30 + of_nat d :: 16 word) = 0x2D"
  have "unat (0x30 + of_nat d :: 16 word) = unat (0x2D :: 16 word)"
    by (subst e) (rule refl)
  then have "48 + d = 45" by (simp only: digit_unat [OF d]) simp
  then show False by simp
qed

lemma decimal_nonempty: "decimal n \<noteq> []"
  by (subst decimal.simps) simp

lemma decimal_hd: "hd (decimal n) \<noteq> 0x2D"
proof (induction n rule: decimal.induct)
  case (1 n)
  show ?case
  proof (cases "n < 10")
    case True
    then show ?thesis
      using digit_not_minus [of n] by (subst decimal.simps) simp
  next
    case False
    with 1 have "hd (decimal (n div 10)) \<noteq> 0x2D" by simp
    with False show ?thesis
      by (subst decimal.simps) (simp add: decimal_nonempty)
  qed
qed

lemma digitsValue_decimal: "digitsValue (decimal n) = n"
proof (induction n rule: decimal.induct)
  case (1 n)
  show ?case
  proof (cases "n < 10")
    case True
    then show ?thesis
      using digit_unat [of n] by (subst decimal.simps) (simp add: digitsValue_def)
  next
    case False
    with 1 have ih: "digitsValue (decimal (n div 10)) = n div 10" by simp
    have m: "n mod 10 < 10" by simp
    from False ih digit_unat [OF m] show ?thesis
      by (subst decimal.simps) (simp add: digitsValue_def)
  qed
qed

lemma decimalValue_decimal: "decimalValue (decimal n) = int n"
proof (cases "decimal n")
  case Nil
  with decimal_nonempty show ?thesis by simp
next
  case (Cons c cs)
  with decimal_hd [of n] have "c \<noteq> 0x2D" by simp
  with Cons digitsValue_decimal [of n] show ?thesis by (simp add: decimalValue_def)
qed

lemma decimalValue_numberToString: "decimalValue (numberToString i) = i"
proof (cases "i < 0")
  case True
  then show ?thesis
    by (simp add: numberToString_def decimalValue_def digitsValue_decimal)
next
  case False
  then show ?thesis
    by (simp add: numberToString_def decimalValue_decimal)
qed

lemma digit_isDigit: "d < 10 \<Longrightarrow> isDigit (0x30 + of_nat d)"
  by (simp add: isDigit_def word_le_nat_alt digit_unat)

lemma digit_zero: "d < 10 \<Longrightarrow> (0x30 + of_nat d :: 16 word) = 0x30 \<Longrightarrow> d = 0"
proof -
  assume d: "d < 10" and e: "(0x30 + of_nat d :: 16 word) = 0x30"
  have "unat (0x30 + of_nat d :: 16 word) = unat (0x30 :: 16 word)"
    by (subst e) (rule refl)
  then have "48 + d = 48" by (simp only: digit_unat [OF d]) simp
  then show "d = 0" by simp
qed

lemma decimal_digits: "list_all isDigit (decimal n)"
proof (induction n rule: decimal.induct)
  case (1 n)
  show ?case
  proof (cases "n < 10")
    case True
    then show ?thesis
      using digit_isDigit [of n] by (subst decimal.simps) simp
  next
    case False
    with 1 have ih: "list_all isDigit (decimal (n div 10))" by simp
    have m: "n mod 10 < 10" by simp
    from False ih digit_isDigit [OF m] show ?thesis
      by (subst decimal.simps) simp
  qed
qed

lemma decimal_hd_zero: "hd (decimal n) = 0x30 \<Longrightarrow> n = 0"
proof (induction n rule: decimal.induct)
  case (1 n)
  show ?case
  proof (cases "n < 10")
    case True
    with 1(2) have "(0x30 + of_nat n :: 16 word) = 0x30"
      by (subst (asm) decimal.simps) simp
    with True show ?thesis by (rule digit_zero)
  next
    case False
    with 1(2) have "hd (decimal (n div 10)) = 0x30"
      by (subst (asm) decimal.simps) (simp add: decimal_nonempty)
    with 1(1) False have "n div 10 = 0" by simp
    with False show ?thesis by simp
  qed
qed

lemma decimal_zero: "decimal 0 = [0x30]"
  by (subst decimal.simps) simp

lemma canonicalDigits_decimal: "canonicalDigits (decimal n)"
proof -
  have "hd (decimal n) = 0x30 \<longrightarrow> length (decimal n) = 1"
  proof
    assume "hd (decimal n) = 0x30"
    then have "n = 0" by (rule decimal_hd_zero)
    then show "length (decimal n) = 1" by (simp add: decimal_zero)
  qed
  then show ?thesis
    by (simp add: canonicalDigits_def decimal_nonempty decimal_digits)
qed

lemma canonicalNumeral_numberToString: "canonicalNumeral (numberToString i)"
proof (cases "i < 0")
  case True
  have "decimal (nat (- i)) \<noteq> [0x30]"
  proof
    assume "decimal (nat (- i)) = [0x30]"
    then have "hd (decimal (nat (- i))) = 0x30" by simp
    then have "nat (- i) = 0" by (rule decimal_hd_zero)
    with True show False by simp
  qed
  with True show ?thesis
    by (simp add: numberToString_def canonicalNumeral_def canonicalDigits_decimal)
next
  case False
  obtain c cs where d: "decimal (nat i) = c # cs"
    using decimal_nonempty [of "nat i"] by (cases "decimal (nat i)") auto
  with decimal_hd [of "nat i"] have "c \<noteq> 0x2D" by simp
  with False d canonicalDigits_decimal [of "nat i"] show ?thesis
    by (simp add: numberToString_def canonicalNumeral_def)
qed

text \<open>
  Claim C3. The timer fires while the subprocess has only produced output (an exit or a
  spawn error would have cleared it), and the configured duration is a safe integer.
  Then \<open>SIGTERM\<close> is sent to the subprocess, the promise is rejected with
  ``Processing timeout: exceeded <timeout>ms'', where the text between the two fixed parts
  is the canonical decimal numeral of the configured duration and reads back as it, and
  the controller answers 500 and marks the job failed with that message.
\<close>

theorem timeout_outcome:
  assumes "audioFiles srv audioId = Some job" and "audioId \<noteq> []"
    and "fileExists env (filepath job)"
    and "events env = ds @ TimerFired # rest" and "\<forall>x\<in>set ds. \<not> terminal x"
    and "isSafeInteger (timeout pythonService)"
  shows "killed (processAudio pythonService (filepath job) (events env)) = [SIGTERM] \<and>
         promiseResult (processAudio pythonService (filepath job) (events env)) =
           Some (Reject (js ''Processing timeout: exceeded '' @
                         numberToString (timeout pythonService) @ js ''ms'')) \<and>
         canonicalNumeral (numberToString (timeout pythonService)) \<and>
         decimalValue (numberToString (timeout pythonService)) = timeout pythonService \<and>
         fst (processController_processAudio pythonService env (Some audioId) srv) =
           Some (Response 500 (Failure (js ''Gagal memproses audio: '' @
                   js ''Processing timeout: exceeded '' @
                   numberToString (timeout pythonService) @ js ''ms''))) \<and>
         audioFiles (snd (processController_processAudio pythonService env (Some audioId) srv))
           audioId =
           Some (job\<lparr>status := Failed,
                     error := Some (js ''Processing timeout: exceeded '' @
                                    numberToString (timeout pythonService) @ js ''ms''),
                     failedAt := Some (stamp env)\<rparr>)"
proof -
  have p: "promiseResult (processAudio pythonService (filepath job) (events env)) =
           Some (Reject (js ''Processing timeout: exceeded '' @
                         numberToString (timeout pythonService) @ js ''ms''))"
    and k: "killed (processAudio pythonService (filepath job) (events env)) = [SIGTERM]"
    using timer_first [OF assms(5), of pythonService "filepath job" rest] assms(4) by simp_all
  show ?thesis
    using k p decimalValue_numberToString [of "timeout pythonService"]
      canonicalNumeral_numberToString [of "timeout pythonService"]
    by (simp add: controller_rejected [OF assms(1-3) p])
qed

theorem zero_exit_outcome_witness:
  "audioFiles exampleServer exampleId = Some exampleJob \<and> exampleId \<noteq> [] \<and>
   \<not> terminal (StdoutData (js ''  /outputs/abc-tuned.wav  '')) \<and>
   trim (stdoutOf [StdoutData (js ''  /outputs/abc-tuned.wav  '')]) = js ''/outputs/abc-tuned.wav'' \<and>
   fst (processController_processAudio defaultService
          (exampleSurroundings True ([StdoutData (js ''  /outputs/abc-tuned.wav  '')] @ Close (Some 0) # []))
          (Some exampleId) exampleServer) =
     Some (Response 200 (ProcessData exampleId Completed (js ''/outputs/abc-tuned.wav'') (1 / 2))) \<and>
   audioFiles (snd (processController_processAudio defaultService
          (exampleSurroundings True ([StdoutData (js ''  /outputs/abc-tuned.wav  '')] @ Close (Some 0) # []))
          (Some exampleId) exampleServer)) exampleId =
     Some (exampleJob\<lparr>status := Completed, outputPath := Some (js ''/outputs/abc-tuned.wav''),
                      processingTime := Some (1 / 2), completedAt := Some 1700000001501\<rparr>) \<and>
   trim (stdoutOf [StdoutData (js ''  '')]) = [] \<and>
   audioFiles (snd (processController_processAudio defaultService
          (exampleSurroundings True ([StdoutData (js ''  '')] @ Close (Some 0) # [TimerFired]))
          (Some exampleId) exampleServer)) exampleId =
     Some (exampleJob\<lparr>status := Failed,
                      error := Some (js ''Python process succeeded but returned no output path''),
                      failedAt := Some 1700000001501\<rparr>)"
proof -
  have h: "audioFiles exampleServer exampleId = Some exampleJob" "exampleId \<noteq> []"
    by (simp_all add: exampleServer_def exampleId_def js_def)
  have f: "fileExists (exampleSurroundings True evs) (filepath exampleJob)" for evs
    by (simp add: exampleSurroundings_def)
  have e: "events (exampleSurroundings True evs) = evs" for evs
    by (simp add: exampleSurroundings_def)
  have d1: "\<forall>x\<in>set [StdoutData (js ''  /outputs/abc-tuned.wav  '')]. \<not> terminal x"
    and d2: "\<forall>x\<in>set [StdoutData (js ''  '')]. \<not> terminal x"
    by simp_all
  have t1: "trim (stdoutOf [StdoutData (js ''  /outputs/abc-tuned.wav  '')]) = js ''/outputs/abc-tuned.wav''"
    and t2: "trim (stdoutOf [StdoutData (js ''  '')]) = []"
    by code_simp+
  have n: "js ''/outputs/abc-tuned.wav'' \<noteq> []"
    by (simp add: js_def)
  have c: "endTime (exampleSurroundings True evs) - startTime (exampleSurroundings True evs) = 500"
    "stamp (exampleSurroundings True evs) = 1700000001501" for evs
    by (simp_all add: exampleSurroundings_def)
  show ?thesis
    using zero_exit_outcome [OF h f e d1, of defaultService "[]"]
      zero_exit_outcome [OF h f e d2, of defaultService "[TimerFired]"]
      h t1 t2 n
    by (simp add: c)
qed

theorem timeout_outcome_witness:
  "audioFiles exampleServer exampleId = Some exampleJob \<and> exampleId \<noteq> [] \<and>
   \<not> terminal (StdoutData (js ''working'')) \<and>
   isSafeInteger (timeout (defaultService\<lparr>timeout := 100\<rparr>)) \<and>
   isSafeInteger (timeout defaultService) \<and>
   killed (processAudio (defaultService\<lparr>timeout := 100\<rparr>) (filepath exampleJob)
     ([StdoutData (js ''working'')] @ TimerFired # [Close None])) = [SIGTERM] \<and>
   audioFiles (snd (processController_processAudio (defaultService\<lparr>timeout := 100\<rparr>)
          (exampleSurroundings True ([StdoutData (js ''working'')] @ TimerFired # [Close None]))
          (Some exampleId) exampleServer)) exampleId =
     Some (exampleJob\<lparr>status := Failed,
                      error := Some (js ''Processing timeout: exceeded 100ms''),
                      failedAt := Some 1700000001501\<rparr>) \<and>
   audioFiles (snd (processController_processAudio defaultService
          (exampleSurroundings True ([] @ TimerFired # []))
          (Some exampleId) exampleServer)) exampleId =
     Some (exampleJob\<lparr>status := Failed,
                      error := Some (js ''Processing timeout: exceeded 30000ms''),
                      failedAt := Some 1700000001501\<rparr>) \<and>
   canonicalNumeral (js ''30000'') \<and> decimalValue (js ''30000'') = 30000"
proof -
  have h: "audioFiles exampleServer exampleId = Some exampleJob" "exampleId \<noteq> []"
    by (simp_all add: exampleServer_def exampleId_def js_def)
  have f: "fileExists (exampleSurroundings True evs) (filepath exampleJob)" for evs
    by (simp add: exampleSurroundings_def)
  have e: "events (exampleSurroundings True evs) = evs" for evs
    by (simp add: exampleSurroundings_def)
  have d: "\<forall>x\<in>set [StdoutData (js ''working'')]. \<not> terminal x"
    and d': "\<forall>x\<in>set []. \<not> terminal x"
    by simp_all
  have s: "isSafeInteger (timeout (defaultService\<lparr>timeout := 100\<rparr>))"
    and s': "isSafeInteger (timeout defaultService)"
    by (simp_all add: isSafeInteger_def defaultService_def)
  have m: "js ''Processing timeout: exceeded '' @
           numberToString (timeout (defaultService\<lparr>timeout := 100\<rparr>)) @ js ''ms'' =
           js ''Processing timeout: exceeded 100ms''"
    and n': "numberToString (timeout defaultService) = js ''30000''"
    and t': "timeout defaultService = 30000"
    by (simp_all add: defaultService_def numberToString_def decimal.simps js_def)
  have m': "js ''Processing timeout: exceeded '' @ js ''30000'' @ js ''ms'' =
            js ''Processing timeout: exceeded 30000ms''"
    by (simp add: js_def)
  have c: "stamp (exampleSurroundings True evs) = 1700000001501" for evs
    by (simp add: exampleSurroundings_def)
  note A = timeout_outcome [OF h f e d s, of "[Close None]", unfolded m c e]
  note B = timeout_outcome [OF h f e d' s', of "[]", unfolded n' c e]
  have r: "canonicalNumeral (js ''30000'')" "decimalValue (js ''30000'') = 30000"
    using B t' by simp_all
  from A B r h s s' show ?thesis
    by (simp add: m')
qed

lemma settlement_wellformed:
  assumes "promiseResult (processAudio svc p evs) = Some out"
  shows "case out of Resolve t \<Rightarrow> t \<noteq> [] | Reject m \<Rightarrow> m \<noteq> []"
proof (cases "\<forall>e\<in>set evs. \<not> terminal e")
  case True
  with assms show ?thesis by (simp add: processAudio_pending promiseResult_def)
next
  case False
  then obtain ds e rest where evs: "evs = ds @ e # rest"
    and ds: "\<forall>x\<in>set ds. \<not> terminal x" and e: "terminal e"
    using first_terminal [of evs] by blast
  have s: "settled (processAudio svc p evs) = settled (handle svc (buffered svc p ds) e)"
    using processAudio_first_terminal(1) [OF ds e, of svc p rest] by (simp add: evs)
  show ?thesis
    using assms e parseErrorMessage_nonempty [of "stderrOf ds"]
    by (cases e)
       (auto simp: s promiseResult_def onClose_def onError_def onTimeout_def Let_def js_Cons
             split: if_splits)
qed

text \<open>
  Claim C6. A job is created by an upload and then processed at most once. Right after
  the upload its record has status uploaded and neither output path nor error, and the
  info endpoint reports it so. At the only point where another request can see the job
  during processing (between the two awaits) and at the end of the request, the record
  satisfies the invariant: no output path and no error while uploaded or processing, a
  non-empty output path and no error when completed, a non-empty error and no output path
  when failed.
\<close>

theorem job_fields_follow_status:
  assumes "uuid \<noteq> []"
  shows "(\<exists>d. audioFiles (snd (handleUpload (Some file) uuid now srv)) uuid = Some d \<and>
              status d = Uploaded \<and> outputPath d = None \<and> error d = None) \<and>
         getAudioInfo (Some uuid) (snd (handleUpload (Some file) uuid now srv)) =
           Response 200 (InfoData uuid (originalname file) 0 (bytes file)
             (getFormatFromMimetype (mimetype file)) Uploaded now NoExtra) \<and>
         (\<exists>d. audioFiles (snd (processController_accessed pythonService
                    (fileExists env (path file)) uuid (startTime env)
                    (snd (handleUpload (Some file) uuid now srv)))) uuid = Some d \<and>
              (status d = Uploaded \<or> status d = Processing) \<and> jobInvariant d) \<and>
         (\<exists>d. audioFiles (snd (processController_processAudio pythonService env (Some uuid)
                    (snd (handleUpload (Some file) uuid now srv)))) uuid = Some d \<and>
              jobInvariant d)"
proof -
  define j where "j = \<lparr>audio_id = uuid, filename = originalname file, fileSize = bytes file,
      duration = 0, format = getFormatFromMimetype (mimetype file), uploadedAt = now,
      status = Uploaded, filepath = path file, storedFilename = diskName file,
      outputPath = None, processingTime = None, completedAt = None,
      error = None, failedAt = None\<rparr>"
  define created where "created = snd (handleUpload (Some file) uuid now srv)"
  have c: "audioFiles created uuid = Some j"
    by (simp add: created_def handleUpload_def j_def Let_def)
  have jf: "status j = Uploaded" "outputPath j = None" "error j = None" "filepath j = path file"
    by (simp_all add: j_def)
  have 1: "\<exists>d. audioFiles created uuid = Some d \<and>
              status d = Uploaded \<and> outputPath d = None \<and> error d = None"
    using c jf by simp
  have 2: "getAudioInfo (Some uuid) created =
           Response 200 (InfoData uuid (originalname file) 0 (bytes file)
             (getFormatFromMimetype (mimetype file)) Uploaded now NoExtra)"
    using c assms by (simp add: getAudioInfo_def j_def)
  have 3: "\<exists>d. audioFiles (snd (processController_accessed pythonService
                    (fileExists env (path file)) uuid (startTime env) created)) uuid = Some d \<and>
              (status d = Uploaded \<or> status d = Processing) \<and> jobInvariant d"
  proof (cases "fileExists env (path file)")
    case True
    then show ?thesis
      using c jf by (simp add: controller_accessed [OF c] started_def jobInvariant_def)
  next
    case False
    then show ?thesis
      using c jf by (simp add: processController_accessed_def jobInvariant_def)
  qed
  have 4: "\<exists>d. audioFiles (snd (processController_processAudio pythonService env (Some uuid)
                    created)) uuid = Some d \<and> jobInvariant d"
  proof (cases "fileExists env (path file)")
    case False
    then have "\<not> fileExists env (filepath j)" by (simp add: jf)
    from controller_missing_file [OF c assms this, of pythonService] c jf
    show ?thesis by (simp add: jobInvariant_def)
  next
    case True
    then have f: "fileExists env (filepath j)" by (simp add: jf)
    show ?thesis
    proof (cases "promiseResult (processAudio pythonService (filepath j) (events env))")
      case None
      from controller_pending [OF c assms f None] jf
      show ?thesis by (simp add: started_def jobInvariant_def)
    next
      case (Some out)
      note w = settlement_wellformed [OF Some]
      show ?thesis
      proof (cases out)
        case (Resolve t)
        with Some have p: "promiseResult (processAudio pythonService (filepath j) (events env)) =
            Some (Resolve t)" by simp
        from controller_resolved [OF c assms f p] w Resolve jf
        show ?thesis by (simp add: jobInvariant_def populated_def)
      next
        case (Reject m)
        with Some have p: "promiseResult (processAudio pythonService (filepath j) (events env)) =
            Some (Reject m)" by simp
        from controller_rejected [OF c assms f p] w Reject jf
        show ?thesis by (simp add: jobInvariant_def populated_def)
      qed
    qed
  qed
  from 1 2 3 4 show ?thesis by (simp add: created_def)
qed

theorem job_fields_follow_status_witness:
  "exampleId \<noteq> [] \<and>
   audioFiles (snd (handleUpload (Some exampleFile) exampleId 1700000000000 emptyServer)) exampleId =
     Some exampleJob \<and>
   getAudioInfo (Some exampleId)
       (snd (handleUpload (Some exampleFile) exampleId 1700000000000 emptyServer)) =
     Response 200 (InfoData exampleId (js ''abc.wav'') 0 1024 (js ''wav'') Uploaded
       1700000000000 NoExtra) \<and>
   jobInvariant exampleJob"
proof -
  have h: "exampleId \<noteq> []"
    by (simp add: exampleId_def js_def)
  have fm: "getFormatFromMimetype (mimetype exampleFile) = js ''wav''"
    by code_simp
  have u: "audioFiles (snd (handleUpload (Some exampleFile) exampleId 1700000000000 emptyServer))
             exampleId = Some exampleJob"
    by (simp add: handleUpload_def Let_def exampleJob_def fm) (simp add: exampleFile_def)
  show ?thesis
    using job_fields_follow_status [OF h, of exampleFile 1700000000000 emptyServer
        defaultService "exampleSurroundings True [Close (Some 0)]"] h u fm
    by (simp add: exampleFile_def jobInvariant_def exampleJob_def)
qed

subsection \<open>Requests in flight together\<close>

lemma accessed_frame:
  "a \<noteq> b \<Longrightarrow> audioFiles (snd (processController_accessed svc ok a t0 srv)) b = audioFiles srv b"
  by (simp add: processController_accessed_def updateJob_def split: option.splits)

lemma settled_frame:
  "a \<noteq> b \<Longrightarrow>
   audioFiles (snd (processController_settled out e st a t0 srv)) b = audioFiles srv b"
  by (simp add: processController_settled_def updateJob_def Let_def split: settlement.splits)

lemma accessed_taskId:
  "taskId (fst (processController_accessed svc ok a t0 srv)) = Some a \<or>
   taskId (fst (processController_accessed svc ok a t0 srv)) = None"
  by (simp add: processController_accessed_def split: option.splits)

lemma resume_frame:
  "taskId t \<noteq> Some b \<Longrightarrow> audioFiles (snd (resume svc r t srv)) b = audioFiles srv b"
proof (cases "(svc, r, t, srv)" rule: resume.cases)
  case (1 pythonService ok audioId t0 srv')
  then show "taskId t \<noteq> Some b \<Longrightarrow> ?thesis"
    by (simp add: accessed_frame)
next
  case (2 pythonService outcome endT stampT audioId t0 srv')
  then show "taskId t \<noteq> Some b \<Longrightarrow> ?thesis"
    using settled_frame [of audioId b outcome endT stampT t0 srv]
    by (auto split: prod.splits)
qed simp_all

lemma resume_taskId:
  "taskId t \<noteq> Some b \<Longrightarrow> taskId (fst (resume svc r t srv)) \<noteq> Some b"
proof (cases "(svc, r, t, srv)" rule: resume.cases)
  case (1 pythonService ok audioId t0 srv')
  then show "taskId t \<noteq> Some b \<Longrightarrow> taskId (fst (resume svc r t srv)) \<noteq> Some b"
    using accessed_taskId [of svc ok audioId t0 srv] by auto
qed (auto split: prod.splits)

lemma deliver_frame:
  assumes "\<forall>t\<in>set ts. taskId t \<noteq> Some b"
  shows "(\<forall>t\<in>set (fst (deliver svc (ts, srv) x)). taskId t \<noteq> Some b) \<and>
         audioFiles (snd (deliver svc (ts, srv) x)) b = audioFiles srv b"
proof (cases x)
  case (Pair i r)
  show ?thesis
  proof (cases "i < length ts")
    case True
    then have m: "ts ! i \<in> set ts" by simp
    with assms have n: "taskId (ts ! i) \<noteq> Some b" by blast
    obtain t' srv' where rs: "resume svc r (ts ! i) srv = (t', srv')" by fastforce
    from resume_frame [OF n, of svc r srv] resume_taskId [OF n, of svc r srv] rs
    have f: "audioFiles srv' b = audioFiles srv b" and g: "taskId t' \<noteq> Some b" by simp_all
    have "\<forall>t\<in>set (ts[i := t']). taskId t \<noteq> Some b"
      using assms g set_update_subset_insert [of ts i t'] by auto
    with f show ?thesis
      using True Pair rs by (simp add: deliver_def)
  next
    case False
    with assms Pair show ?thesis by (simp add: deliver_def)
  qed
qed

lemma runSchedule_frame:
  "\<forall>t\<in>set ts. taskId t \<noteq> Some b \<Longrightarrow>
   audioFiles (snd (foldl (deliver svc) (ts, srv) schedule)) b = audioFiles srv b"
proof (induction schedule arbitrary: ts srv)
  case Nil
  then show ?case by simp
next
  case (Cons x schedule)
  obtain ts' srv' where d: "deliver svc (ts, srv) x = (ts', srv')" by fastforce
  from deliver_frame [OF Cons.prems, of svc srv x] d
  have p: "\<forall>t\<in>set ts'. taskId t \<noteq> Some b" and f: "audioFiles srv' b = audioFiles srv b"
    by simp_all
  from Cons.IH [OF p, of srv'] f d show ?case by simp
qed

lemma resume_local:
  assumes "taskId t = Some b \<or> taskId t = None"
    and "audioFiles srv1 b = audioFiles srv2 b"
  shows "fst (resume svc r t srv1) = fst (resume svc r t srv2) \<and>
         audioFiles (snd (resume svc r t srv1)) b = audioFiles (snd (resume svc r t srv2)) b"
proof (cases "(svc, r, t, srv1)" rule: resume.cases)
  case (1 pythonService ok audioId t0 srv')
  with assms show ?thesis
    by (auto simp: processController_accessed_def updateJob_def split: option.splits)
next
  case (2 pythonService outcome endT stampT audioId t0 srv')
  with assms show ?thesis
    by (auto simp: processController_settled_def updateJob_def Let_def
        split: settlement.splits prod.splits)
qed (use assms in simp_all)

lemma resume_keeps_id:
  "taskId (fst (resume svc r t srv)) = taskId t \<or> taskId (fst (resume svc r t srv)) = None"
proof (cases "(svc, r, t, srv)" rule: resume.cases)
  case (1 pythonService ok audioId t0 srv')
  then show ?thesis
    using accessed_taskId [of svc ok audioId t0 srv] by auto
qed (auto split: prod.splits)

lemma deliver_own:
  assumes r: "inStep b ts0 st1 st2"
    and own: "fst x < length ts0" "taskId (ts0 ! fst x) = Some b"
  shows "inStep b ts0 (deliver svc st1 x) (deliver svc st2 x)"
proof -
  obtain ts1 srv1 where s1: "st1 = (ts1, srv1)" by (cases st1)
  obtain ts2 srv2 where s2: "st2 = (ts2, srv2)" by (cases st2)
  obtain i rs where x: "x = (i, rs)" by (cases x)
  from r s1 s2 have l1: "length ts1 = length ts0" and l2: "length ts2 = length ts0"
    and a: "audioFiles srv1 b = audioFiles srv2 b"
    and own_all: "\<forall>j<length ts0. taskId (ts0 ! j) = Some b \<longrightarrow>
        ts1 ! j = ts2 ! j \<and> (taskId (ts1 ! j) = Some b \<or> taskId (ts1 ! j) = None)"
    and other_all: "\<forall>j<length ts0. taskId (ts0 ! j) \<noteq> Some b \<longrightarrow> taskId (ts1 ! j) \<noteq> Some b"
    by (auto simp: inStep_def)
  from own x have i: "i < length ts0" and oi: "taskId (ts0 ! i) = Some b" by simp_all
  from own_all i oi have eq: "ts1 ! i = ts2 ! i"
    and ti: "taskId (ts1 ! i) = Some b \<or> taskId (ts1 ! i) = None" by auto
  obtain t1 srv1' where r1: "resume svc rs (ts1 ! i) srv1 = (t1, srv1')" by fastforce
  obtain t2 srv2' where r2: "resume svc rs (ts2 ! i) srv2 = (t2, srv2')" by fastforce
  from resume_local [OF ti a, of svc rs] r1 r2 eq
  have t: "t1 = t2" and a': "audioFiles srv1' b = audioFiles srv2' b" by simp_all
  from resume_keeps_id [of svc rs "ts1 ! i" srv1] r1 ti
  have ti': "taskId t1 = Some b \<or> taskId t1 = None" by auto
  have d1: "deliver svc st1 x = (ts1[i := t1], srv1')"
    using s1 x i l1 r1 by (simp add: deliver_def)
  have d2: "deliver svc st2 x = (ts2[i := t1], srv2')"
    using s2 x i l2 r2 t by (simp add: deliver_def)
  have own': "\<forall>j<length ts0. taskId (ts0 ! j) = Some b \<longrightarrow>
        ts1[i := t1] ! j = ts2[i := t1] ! j \<and>
        (taskId (ts1[i := t1] ! j) = Some b \<or> taskId (ts1[i := t1] ! j) = None)"
  proof (intro allI impI)
    fix j assume j: "j < length ts0" and oj: "taskId (ts0 ! j) = Some b"
    show "ts1[i := t1] ! j = ts2[i := t1] ! j \<and>
        (taskId (ts1[i := t1] ! j) = Some b \<or> taskId (ts1[i := t1] ! j) = None)"
    proof (cases "j = i")
      case True
      with i l1 l2 ti' show ?thesis by simp
    next
      case False
      with own_all j oj show ?thesis by auto
    qed
  qed
  have other': "\<forall>j<length ts0. taskId (ts0 ! j) \<noteq> Some b \<longrightarrow>
        taskId (ts1[i := t1] ! j) \<noteq> Some b"
  proof (intro allI impI)
    fix j assume j: "j < length ts0" and oj: "taskId (ts0 ! j) \<noteq> Some b"
    with oi have "j \<noteq> i" by auto
    with other_all j oj show "taskId (ts1[i := t1] ! j) \<noteq> Some b" by simp
  qed
  show ?thesis
    unfolding d1 d2 inStep_def fst_conv snd_conv length_list_update
    using l1 l2 a' own' other' by blast
qed

lemma deliver_other:
  assumes r: "inStep b ts0 st1 st2"
    and other: "\<not> (fst x < length ts0 \<and> taskId (ts0 ! fst x) = Some b)"
  shows "inStep b ts0 (deliver svc st1 x) st2"
proof -
  obtain ts1 srv1 where s1: "st1 = (ts1, srv1)" by (cases st1)
  obtain ts2 srv2 where s2: "st2 = (ts2, srv2)" by (cases st2)
  obtain i rs where x: "x = (i, rs)" by (cases x)
  from r s1 s2 have l1: "length ts1 = length ts0" and l2: "length ts2 = length ts0"
    and a: "audioFiles srv1 b = audioFiles srv2 b"
    and own_all: "\<forall>j<length ts0. taskId (ts0 ! j) = Some b \<longrightarrow>
        ts1 ! j = ts2 ! j \<and> (taskId (ts1 ! j) = Some b \<or> taskId (ts1 ! j) = None)"
    and other_all: "\<forall>j<length ts0. taskId (ts0 ! j) \<noteq> Some b \<longrightarrow> taskId (ts1 ! j) \<noteq> Some b"
    by (auto simp: inStep_def)
  show ?thesis
  proof (cases "i < length ts0")
    case False
    then have "deliver svc st1 x = st1" using s1 x l1 by (simp add: deliver_def)
    with r show ?thesis by simp
  next
    case True
    with other x have oi: "taskId (ts0 ! i) \<noteq> Some b" by simp
    with other_all True have ni: "taskId (ts1 ! i) \<noteq> Some b" by auto
    obtain t1 srv1' where r1: "resume svc rs (ts1 ! i) srv1 = (t1, srv1')" by fastforce
    from resume_frame [OF ni, of svc rs srv1] resume_taskId [OF ni, of svc rs srv1] r1
    have a': "audioFiles srv1' b = audioFiles srv1 b" and n': "taskId t1 \<noteq> Some b" by simp_all
    have d1: "deliver svc st1 x = (ts1[i := t1], srv1')"
      using s1 x True l1 r1 by (simp add: deliver_def)
    have own': "\<forall>j<length ts0. taskId (ts0 ! j) = Some b \<longrightarrow>
          ts1[i := t1] ! j = ts2 ! j \<and>
          (taskId (ts1[i := t1] ! j) = Some b \<or> taskId (ts1[i := t1] ! j) = None)"
    proof (intro allI impI)
      fix j assume j: "j < length ts0" and oj: "taskId (ts0 ! j) = Some b"
      with oi have "j \<noteq> i" by auto
      with own_all j oj show "ts1[i := t1] ! j = ts2 ! j \<and>
          (taskId (ts1[i := t1] ! j) = Some b \<or> taskId (ts1[i := t1] ! j) = None)" by auto
    qed
    have other': "\<forall>j<length ts0. taskId (ts0 ! j) \<noteq> Some b \<longrightarrow>
          taskId (ts1[i := t1] ! j) \<noteq> Some b"
    proof (intro allI impI)
      fix j assume j: "j < length ts0" and oj: "taskId (ts0 ! j) \<noteq> Some b"
      show "taskId (ts1[i := t1] ! j) \<noteq> Some b"
      proof (cases "j = i")
        case True
        with True l1 j n' show ?thesis by simp
      next
        case False
        with other_all j oj show ?thesis by simp
      qed
    qed
    have a'': "audioFiles srv1' b = audioFiles srv2 b" using a a' by simp
    show ?thesis
      unfolding d1 s2 inStep_def fst_conv snd_conv length_list_update
      using l1 l2 a'' own' other' by blast
  qed
qed

lemma runs_inStep:
  "inStep b ts0 st1 st2 \<Longrightarrow>
   inStep b ts0 (foldl (deliver svc) st1 schedule)
     (foldl (deliver svc) st2
        (filter (\<lambda>x. fst x < length ts0 \<and> taskId (ts0 ! fst x) = Some b) schedule))"
proof (induction schedule arbitrary: st1 st2)
  case Nil
  then show ?case by simp
next
  case (Cons x schedule)
  show ?case
  proof (cases "fst x < length ts0 \<and> taskId (ts0 ! fst x) = Some b")
    case True
    then have "inStep b ts0 (deliver svc st1 x) (deliver svc st2 x)"
      using deliver_own [OF Cons.prems] by simp
    from Cons.IH [OF this] True show ?thesis by simp
  next
    case False
    then have "inStep b ts0 (deliver svc st1 x) st2"
      using deliver_other [OF Cons.prems] by simp
    from Cons.IH [OF this] False show ?thesis by auto
  qed
qed

lemma inStep_refl: "inStep b ts (ts, srv) (ts, srv)"
  by (simp add: inStep_def)

text \<open>
  Claim C9, as amended. Each segment of a request runs uninterrupted, so every single
  write to a job record is atomic; and distinct ids never contend. Whatever requests are
  in flight and however the event loop interleaves their segments, the record a job ends
  with and the state each of its requests ends in (its response, once answered) are those
  of the run in which only the job's own requests are resumed, in the same order: the
  requests for other ids, running at the same time, change nothing for it. Nothing more
  is guarded.
\<close>

theorem distinct_ids_never_contend:
  "audioFiles (snd (runSchedule pythonService schedule (ts, srv))) b =
     audioFiles (snd (runSchedule pythonService (stepsFor b ts schedule) (ts, srv))) b \<and>
   (i < length ts \<and> taskId (ts ! i) = Some b \<longrightarrow>
      fst (runSchedule pythonService schedule (ts, srv)) ! i =
        fst (runSchedule pythonService (stepsFor b ts schedule) (ts, srv)) ! i)"
  using runs_inStep [OF inStep_refl [of b ts srv], of pythonService schedule]
  by (simp add: runSchedule_def stepsFor_def inStep_def)

theorem distinct_ids_never_contend_witness:
  "0 < length twoRequests \<and> taskId (twoRequests ! 0) = Some exampleId \<and>
   stepsFor exampleId twoRequests interleaved =
     [(0, Accessed True),
      (0, Settled (Resolve (js ''/outputs/abc-tuned.wav'')) 1700000001500 1700000001501)] \<and>
   audioFiles (snd (runSchedule defaultService interleaved (twoRequests, twoJobs))) exampleId =
     Some (exampleJob\<lparr>status := Completed, outputPath := Some (js ''/outputs/abc-tuned.wav''),
             processingTime := Some (1 / 2), completedAt := Some 1700000001501\<rparr>) \<and>
   fst (runSchedule defaultService interleaved (twoRequests, twoJobs)) ! 0 =
     Done (Response 200 (ProcessData exampleId Completed (js ''/outputs/abc-tuned.wav'') (1 / 2))) \<and>
   stepsFor otherId twoRequests interleaved =
     [(1, Accessed True),
      (1, Settled (Reject (js ''Audio file not found'')) 1700000001600 1700000001601)] \<and>
   audioFiles (snd (runSchedule defaultService interleaved (twoRequests, twoJobs))) otherId =
     Some (otherJob\<lparr>status := Failed, error := Some (js ''Audio file not found''),
             failedAt := Some 1700000001601\<rparr>)"
proof -
  have h: "0 < length twoRequests" "taskId (twoRequests ! 0) = Some exampleId"
    by (simp_all add: twoRequests_def)
  have s1: "stepsFor exampleId twoRequests interleaved =
     [(0, Accessed True),
      (0, Settled (Resolve (js ''/outputs/abc-tuned.wav'')) 1700000001500 1700000001501)]"
    and s2: "stepsFor otherId twoRequests interleaved =
     [(1, Accessed True),
      (1, Settled (Reject (js ''Audio file not found'')) 1700000001600 1700000001601)]"
    by code_simp+
  have alone1: "audioFiles (snd (runSchedule defaultService
        [(0, Accessed True),
         (0, Settled (Resolve (js ''/outputs/abc-tuned.wav'')) 1700000001500 1700000001501)]
        (twoRequests, twoJobs))) exampleId =
     Some (exampleJob\<lparr>status := Completed, outputPath := Some (js ''/outputs/abc-tuned.wav''),
             processingTime := Some (1 / 2), completedAt := Some 1700000001501\<rparr>)"
    and resp1: "fst (runSchedule defaultService
        [(0, Accessed True),
         (0, Settled (Resolve (js ''/outputs/abc-tuned.wav'')) 1700000001500 1700000001501)]
        (twoRequests, twoJobs)) ! 0 =
     Done (Response 200 (ProcessData exampleId Completed (js ''/outputs/abc-tuned.wav'') (1 / 2)))"
    and alone2: "audioFiles (snd (runSchedule defaultService
        [(1, Accessed True),
         (1, Settled (Reject (js ''Audio file not found'')) 1700000001600 1700000001601)]
        (twoRequests, twoJobs))) otherId =
     Some (otherJob\<lparr>status := Failed, error := Some (js ''Audio file not found''),
             failedAt := Some 1700000001601\<rparr>)"
    by code_simp+
  show ?thesis
    using distinct_ids_never_contend [of defaultService interleaved twoRequests twoJobs exampleId 0]
      distinct_ids_never_contend [of defaultService interleaved twoRequests twoJobs otherId 0]
      h s1 s2 alone1 resp1 alone2
    by simp
qed

text \<open>
  The claim as stated rules out that two simultaneous requests for one id both set
  processing and both make a terminal transition. In \<open>sameIdRace\<close> both do: two
  subprocesses are spawned for the one file, both requests are answered, and the record
  ends failed while holding the output path of the first and the error of the second.
\<close>

theorem same_id_race_counterexample:
  "fst sameIdRace =
     [Done (Response 200 (ProcessData exampleId Completed (js ''/outputs/abc-tuned.wav'') (1 / 2))),
      Done (Response 500 (Failure (js ''Gagal memproses audio: Audio file not found'')))] \<and>
   spawned (snd sameIdRace) =
     [[js ''python'', js ''ai_engine/pitch_correction.py'', js ''uploads/1700000000000-abc.wav''],
      [js ''python'', js ''ai_engine/pitch_correction.py'', js ''uploads/1700000000000-abc.wav'']] \<and>
   audioFiles (snd sameIdRace) exampleId =
     Some (exampleJob\<lparr>status := Failed, outputPath := Some (js ''/outputs/abc-tuned.wav''),
             processingTime := Some (1 / 2), completedAt := Some 1700000001501,
             error := Some (js ''Audio file not found''), failedAt := Some 1700000001601\<rparr>)"
  by code_simp

subsection \<open>The sweepers in a quiescent world\<close>

lemma suspend_quiescent [simp]:
  "suspend quiescent call s = s\<lparr>awaited := Suc (awaited s)\<rparr>"
  by (simp add: suspend_def quiescent_def)

lemma stat_quiescent:
  assumes "disk (world s) d = Present es"
  shows "fs_stat quiescent d file s =
         ((case map_of es file of None \<Rightarrow> Inl ENOENT | Some n \<Rightarrow> Inr n),
          s\<lparr>awaited := Suc (awaited s)\<rparr>)"
  using assms by (simp add: fs_stat_def split: option.splits)

lemma unlink_quiescent:
  assumes "disk (world s) d = Present es" and "map_of es file = Some n"
  shows "fs_unlink quiescent d file s =
         (if isFile n \<and> removable n
          then (Inr (), s\<lparr>world := putFolder d (Present (filter (\<lambda>e. fst e \<noteq> file) es)) (world s),
                          awaited := Suc (awaited s),
                          unlinked := unlinked s @ [(d, file)]\<rparr>)
          else (Inl EPERM, s\<lparr>awaited := Suc (awaited s)\<rparr>))"
  using assms by (simp add: fs_unlink_def setFolder_def putFolder_def Let_def)

lemma putFolder_twice [simp]: "putFolder d g (putFolder d f w) = putFolder d g w"
  by (simp add: putFolder_def)

lemma putFolder_disk [simp]: "disk (putFolder d f w) d = f"
  by (simp add: putFolder_def)

lemma putFolder_time [simp]: "time (putFolder d f w) = time w"
  by (simp add: putFolder_def)

lemma putFolder_same: "disk w d = f \<Longrightarrow> putFolder d f w = w"
  by (auto simp: putFolder_def)

lemma map_of_filter_other:
  "g \<noteq> file \<Longrightarrow> map_of (filter (\<lambda>e. fst e \<noteq> file) es) g = map_of es g"
  by (induction es) auto

lemma victim_filter_other:
  "g \<noteq> file \<Longrightarrow> victim now m (filter (\<lambda>e. fst e \<noteq> file) es) g = victim now m es g"
  by (simp add: victim_def map_of_filter_other)

lemma distinct_filter_fst: "distinct (map fst es) \<Longrightarrow> distinct (map fst (filter P es))"
  by (simp add: distinct_map_filter)

lemma entry_unique:
  assumes "map_of es file = Some n" and "distinct (map fst es)"
    and "e \<in> set es" and "fst e = file"
  shows "e = (file, n)"
proof -
  have "(file, n) \<in> set es" using assms(1) by (rule map_of_SomeD)
  moreover have "(file, snd e) \<in> set es" using assms(3,4) by auto
  ultimately have "n = snd e" by (rule eq_key_imp_eq_value [OF assms(2)])
  with assms(4) show ?thesis by auto
qed

text \<open>What one round of the loop does to the listing, in a quiescent world.\<close>

lemma keep_absent:
  assumes "map_of es file = None"
  shows "filter (\<lambda>e. \<not> (fst e \<in> set (file # files) \<and> doomed now m e)) es =
         filter (\<lambda>e. \<not> (fst e \<in> set files \<and> doomed now m e)) es"
proof (rule filter_cong [OF refl])
  fix e assume "e \<in> set es"
  with assms have "fst e \<noteq> file"
    by (auto simp: map_of_eq_None_iff)
  then show "(\<not> (fst e \<in> set (file # files) \<and> doomed now m e)) =
             (\<not> (fst e \<in> set files \<and> doomed now m e))" by simp
qed

lemma keep_spared:
  assumes "map_of es file = Some n" and "distinct (map fst es)" and "\<not> doomed now m (file, n)"
  shows "filter (\<lambda>e. \<not> (fst e \<in> set (file # files) \<and> doomed now m e)) es =
         filter (\<lambda>e. \<not> (fst e \<in> set files \<and> doomed now m e)) es"
proof (rule filter_cong [OF refl])
  fix e assume e: "e \<in> set es"
  have "fst e = file \<Longrightarrow> e = (file, n)"
    using entry_unique [OF assms(1,2) e] by simp
  with assms(3) show "(\<not> (fst e \<in> set (file # files) \<and> doomed now m e)) =
             (\<not> (fst e \<in> set files \<and> doomed now m e))" by auto
qed

lemma keep_removed:
  assumes "map_of es file = Some n" and "distinct (map fst es)" and "doomed now m (file, n)"
  shows "filter (\<lambda>e. \<not> (fst e \<in> set files \<and> doomed now m e)) (filter (\<lambda>e. fst e \<noteq> file) es) =
         filter (\<lambda>e. \<not> (fst e \<in> set (file # files) \<and> doomed now m e)) es"
proof -
  have "\<And>e. e \<in> set es \<Longrightarrow> fst e = file \<Longrightarrow> e = (file, n)"
  proof -
    fix e assume "e \<in> set es" "fst e = file"
    then show "e = (file, n)"
      using entry_unique [OF assms(1,2)] by simp
  qed
  then have "\<And>e. e \<in> set es \<Longrightarrow>
      (fst e \<noteq> file \<and> \<not> (fst e \<in> set files \<and> doomed now m e)) =
      (\<not> (fst e \<in> set (file # files) \<and> doomed now m e))"
    using assms(3) by auto
  then have "filter (\<lambda>e. fst e \<noteq> file \<and> \<not> (fst e \<in> set files \<and> doomed now m e)) es =
             filter (\<lambda>e. \<not> (fst e \<in> set (file # files) \<and> doomed now m e)) es"
    by (rule filter_cong [OF refl])
  then show ?thesis
    by (simp add: conj_commute)
qed

text \<open>
  A loop over the listed names that, round by round, removes the name's entry and counts
  it exactly when the entry is a victim, computes the sweep. Both sweepers have such a
  loop when the world is quiescent.
\<close>

lemma sweep_rounds:
  fixes loop :: "jsstring list \<Rightarrow> nat \<Rightarrow> sys \<Rightarrow> nat \<times> sys"
  assumes nil: "\<And>cnt s. loop [] cnt s = (cnt, s)"
    and round: "\<And>file files cnt s es.
        disk (world s) d = Present es \<Longrightarrow> distinct (map fst es) \<Longrightarrow> time (world s) = now \<Longrightarrow>
        \<exists>s'. loop (file # files) cnt s =
               loop files (if victim now m es file then cnt + 1 else cnt) s' \<and>
             world s' = (if victim now m es file
                         then putFolder d (Present (filter (\<lambda>e. fst e \<noteq> file) es)) (world s)
                         else world s) \<and>
             unlinked s' = (if victim now m es file then unlinked s @ [(d, file)] else unlinked s)"
  shows "disk (world s) d = Present es \<Longrightarrow> distinct (map fst es) \<Longrightarrow> distinct files \<Longrightarrow>
         time (world s) = now \<Longrightarrow>
         fst (loop files cnt s) = cnt + length (filter (victim now m es) files) \<and>
         world (snd (loop files cnt s)) =
           putFolder d (Present (filter (\<lambda>e. \<not> (fst e \<in> set files \<and> doomed now m e)) es)) (world s) \<and>
         unlinked (snd (loop files cnt s)) =
           unlinked s @ map (Pair d) (filter (victim now m es) files)"
proof (induction files arbitrary: s es cnt)
  case Nil
  then show ?case by (simp add: nil putFolder_same)
next
  case (Cons f files)
  from round [OF Cons.prems(1,2,4), of f files cnt] obtain s' where
    step: "loop (f # files) cnt s =
             loop files (if victim now m es f then cnt + 1 else cnt) s'"
    and w: "world s' = (if victim now m es f
                         then putFolder d (Present (filter (\<lambda>e. fst e \<noteq> f) es)) (world s)
                         else world s)"
    and u: "unlinked s' = (if victim now m es f then unlinked s @ [(d, f)] else unlinked s)"
    by blast
  from Cons.prems(3) have df: "distinct files" and nf: "f \<notin> set files" by simp_all
  show ?case
  proof (cases "victim now m es f")
    case False
    have keep: "filter (\<lambda>e. \<not> (fst e \<in> set (f # files) \<and> doomed now m e)) es =
                filter (\<lambda>e. \<not> (fst e \<in> set files \<and> doomed now m e)) es"
    proof (cases "map_of es f")
      case None
      then show ?thesis by (rule keep_absent)
    next
      case (Some n)
      with False have "\<not> doomed now m (f, n)" by (simp add: victim_def)
      with Some Cons.prems(2) show ?thesis by (rule keep_spared)
    qed
    have d': "disk (world s') d = Present es" and t': "time (world s') = now"
      using False w Cons.prems(1,4) by simp_all
    from Cons.IH [OF d' Cons.prems(2) df t', of cnt] False step w u keep
    show ?thesis by simp
  next
    case True
    then obtain n where n: "map_of es f = Some n" and dm: "doomed now m (f, n)"
      by (auto simp: victim_def split: option.splits)
    let ?es' = "filter (\<lambda>e. fst e \<noteq> f) es"
    have d': "disk (world s') d = Present ?es'" and t': "time (world s') = now"
      using True w Cons.prems(4) by simp_all
    have dist': "distinct (map fst ?es')"
      using Cons.prems(2) by (rule distinct_filter_fst)
    have same: "filter (victim now m ?es') files = filter (victim now m es) files"
    proof (rule filter_cong [OF refl])
      fix g assume "g \<in> set files"
      with nf have "g \<noteq> f" by auto
      then show "victim now m ?es' g = victim now m es g" by (rule victim_filter_other)
    qed
    note kr = keep_removed [OF n Cons.prems(2) dm, of files]
    from Cons.IH [OF d' dist' df t', of "cnt + 1"] True step w u same kr
    show ?thesis by simp
  qed
qed

lemma FileManager_round:
  assumes "disk (world s) d = Present es" and "distinct (map fst es)"
  shows "\<exists>s'. FileManager_loop quiescent d m now (file # files) cnt s =
               FileManager_loop quiescent d m now files
                 (if victim now m es file then cnt + 1 else cnt) s' \<and>
             world s' = (if victim now m es file
                         then putFolder d (Present (filter (\<lambda>e. fst e \<noteq> file) es)) (world s)
                         else world s) \<and>
             unlinked s' = (if victim now m es file then unlinked s @ [(d, file)] else unlinked s)"
proof (cases "map_of es file")
  case None
  then have "FileManager_loop quiescent d m now (file # files) cnt s =
             FileManager_loop quiescent d m now files cnt (s\<lparr>awaited := Suc (awaited s)\<rparr>)"
    by (simp add: stat_quiescent [OF assms(1)])
  with None show ?thesis by (auto simp: victim_def)
next
  case (Some n)
  let ?s1 = "s\<lparr>awaited := Suc (awaited s)\<rparr>"
  have d1: "disk (world ?s1) d = Present es" using assms(1) by simp
  note un = unlink_quiescent [OF d1 Some]
  show ?thesis
  proof (cases "doomed now m (file, n)")
    case True
    then have "FileManager_loop quiescent d m now (file # files) cnt s =
               FileManager_loop quiescent d m now files (cnt + 1)
                 (?s1\<lparr>world := putFolder d (Present (filter (\<lambda>e. fst e \<noteq> file) es)) (world ?s1),
                      awaited := Suc (awaited ?s1),
                      unlinked := unlinked ?s1 @ [(d, file)]\<rparr>)"
      using Some
      by (simp add: stat_quiescent [OF assms(1)] FileManager_deleteFile_def un
          doomed_def stale_def Let_def)
    with True Some show ?thesis by (auto simp: victim_def)
  next
    case False
    then have "FileManager_loop quiescent d m now (file # files) cnt s =
                 FileManager_loop quiescent d m now files cnt ?s1 \<or>
               FileManager_loop quiescent d m now (file # files) cnt s =
                 FileManager_loop quiescent d m now files cnt (?s1\<lparr>awaited := Suc (awaited ?s1)\<rparr>)"
      using Some
      by (auto simp: stat_quiescent [OF assms(1)] FileManager_deleteFile_def un
          doomed_def stale_def Let_def)
    with False Some show ?thesis by (auto simp: victim_def)
  qed
qed

lemma isFileOld_quiescent:
  assumes "disk (world s) d = Present es" and "map_of es file = Some n"
  shows "CleanupScheduler_isFileOld quiescent this d file s =
         (time (world s) - mtime n > maxAge this, s\<lparr>awaited := Suc (awaited s)\<rparr>)"
  using assms by (simp add: CleanupScheduler_isFileOld_def stat_quiescent [OF assms(1)] Let_def)

lemma CleanupScheduler_round:
  assumes "disk (world s) d = Present es" and "distinct (map fst es)"
    and "time (world s) = now"
  shows "\<exists>s'. CleanupScheduler_loop quiescent this d (file # files) cnt s =
               CleanupScheduler_loop quiescent this d files
                 (if victim now (maxAge this) es file then cnt + 1 else cnt) s' \<and>
             world s' = (if victim now (maxAge this) es file
                         then putFolder d (Present (filter (\<lambda>e. fst e \<noteq> file) es)) (world s)
                         else world s) \<and>
             unlinked s' = (if victim now (maxAge this) es file
                            then unlinked s @ [(d, file)] else unlinked s)"
proof (cases "map_of es file")
  case None
  then have "CleanupScheduler_loop quiescent this d (file # files) cnt s =
             CleanupScheduler_loop quiescent this d files cnt (s\<lparr>awaited := Suc (awaited s)\<rparr>)"
    by (simp add: stat_quiescent [OF assms(1)])
  with None show ?thesis by (auto simp: victim_def)
next
  case (Some n)
  let ?s1 = "s\<lparr>awaited := Suc (awaited s)\<rparr>"
  let ?s2 = "s\<lparr>awaited := Suc (Suc (awaited s))\<rparr>"
  have d1: "disk (world ?s1) d = Present es" and d2: "disk (world ?s2) d = Present es"
    using assms(1) by simp_all
  note old = isFileOld_quiescent [OF d1 Some, of this]
  note un = unlink_quiescent [OF d2 Some]
  show ?thesis
  proof (cases "doomed now (maxAge this) (file, n)")
    case True
    then have "CleanupScheduler_loop quiescent this d (file # files) cnt s =
               CleanupScheduler_loop quiescent this d files (cnt + 1)
                 (?s2\<lparr>world := putFolder d (Present (filter (\<lambda>e. fst e \<noteq> file) es)) (world ?s2),
                      awaited := Suc (awaited ?s2),
                      unlinked := unlinked ?s2 @ [(d, file)]\<rparr>)"
      using Some assms(3)
      by (simp add: stat_quiescent [OF assms(1)] old CleanupScheduler_deleteFile_def un
          doomed_def stale_def)
    with True Some show ?thesis by (auto simp: victim_def)
  next
    case False
    then have "CleanupScheduler_loop quiescent this d (file # files) cnt s =
                 CleanupScheduler_loop quiescent this d files cnt ?s1 \<or>
               CleanupScheduler_loop quiescent this d (file # files) cnt s =
                 CleanupScheduler_loop quiescent this d files cnt ?s2 \<or>
               CleanupScheduler_loop quiescent this d (file # files) cnt s =
                 CleanupScheduler_loop quiescent this d files cnt (?s2\<lparr>awaited := Suc (awaited ?s2)\<rparr>)"
      using Some assms(3)
      by (auto simp: stat_quiescent [OF assms(1)] old CleanupScheduler_deleteFile_def un
          doomed_def stale_def)
    with False Some show ?thesis by (auto simp: victim_def)
  qed
qed

lemma victims_listed:
  assumes "distinct (map fst es)"
  shows "filter (victim now m es) (map fst es) = map fst (filter (doomed now m) es)"
proof -
  have "\<And>e. e \<in> set es \<Longrightarrow> victim now m es (fst e) = doomed now m e"
  proof -
    fix e assume "e \<in> set es"
    then have "map_of es (fst e) = Some (snd e)"
      using assms by (simp add: map_of_is_SomeI)
    then show "victim now m es (fst e) = doomed now m e"
      by (simp add: victim_def)
  qed
  then have "\<And>e. e \<in> set es \<Longrightarrow> (victim now m es \<circ> fst) e = doomed now m e"
    by simp
  then have "filter (victim now m es \<circ> fst) es = filter (doomed now m) es"
    by (rule filter_cong [OF refl])
  then show ?thesis
    by (simp add: filter_map)
qed

lemma survivors_listed:
  "filter (\<lambda>e. \<not> (fst e \<in> set (map fst es) \<and> doomed now m e)) es =
   filter (\<lambda>e. \<not> doomed now m e) es"
  by (rule filter_cong [OF refl]) auto

lemma survivors_listed_imp:
  "filter (\<lambda>e. fst e \<in> fst ` set es \<longrightarrow> \<not> doomed now m e) es =
   filter (\<lambda>e. \<not> doomed now m e) es"
  by (rule filter_cong [OF refl]) auto

lemma mkdir_quiescent:
  assumes "disk (world s) d \<noteq> Unavailable"
  shows "\<exists>s1. fs_mkdir quiescent d s = (Inr (), s1) \<and>
              world s1 = putFolder d (Present (listing (disk (world s) d))) (world s) \<and>
              unlinked s1 = unlinked s"
  using assms
  by (cases "disk (world s) d")
     (auto simp: fs_mkdir_def setFolder_def putFolder_def listing_def fun_upd_idem)

lemma readdir_quiescent:
  assumes "disk (world s) d = Present es"
  shows "fs_readdir quiescent d s = (Inr (map fst es), s\<lparr>awaited := Suc (awaited s)\<rparr>)"
  using assms by (simp add: fs_readdir_def)

lemma FileManager_quiescent:
  assumes "disk (world s) d \<noteq> Unavailable"
    and "distinct (map fst (listing (disk (world s) d)))"
  shows "fst (FileManager_cleanupOldFiles quiescent d m s) =
           Inr (length (filter (doomed (time (world s)) m) (listing (disk (world s) d)))) \<and>
         world (snd (FileManager_cleanupOldFiles quiescent d m s)) =
           putFolder d (Present (filter (\<lambda>e. \<not> doomed (time (world s)) m e)
                                   (listing (disk (world s) d)))) (world s) \<and>
         unlinked (snd (FileManager_cleanupOldFiles quiescent d m s)) =
           unlinked s @ map (\<lambda>e. (d, fst e))
                          (filter (doomed (time (world s)) m) (listing (disk (world s) d)))"
proof -
  define es where "es = listing (disk (world s) d)"
  define now where "now = time (world s)"
  from mkdir_quiescent [OF assms(1)] obtain s1 where
    mk: "fs_mkdir quiescent d s = (Inr (), s1)"
    and w1: "world s1 = putFolder d (Present es) (world s)"
    and u1: "unlinked s1 = unlinked s"
    by (auto simp: es_def)
  let ?s2 = "s1\<lparr>awaited := Suc (awaited s1)\<rparr>"
  have d1: "disk (world s1) d = Present es" by (simp add: w1)
  have d2: "disk (world ?s2) d = Present es" and t2: "time (world ?s2) = now"
    by (simp_all add: w1 now_def)
  have dist: "distinct (map fst es)" and dn: "distinct (map fst es)"
    using assms(2) by (simp_all add: es_def)
  note loop = sweep_rounds [where loop = "FileManager_loop quiescent d m now" and d = d
      and now = now and m = m, OF _ _ d2 dist dn t2, of 0]
  have r: "fst (FileManager_loop quiescent d m now (map fst es) 0 ?s2) =
             0 + length (filter (victim now m es) (map fst es)) \<and>
           world (snd (FileManager_loop quiescent d m now (map fst es) 0 ?s2)) =
             putFolder d (Present (filter (\<lambda>e. \<not> (fst e \<in> set (map fst es) \<and> doomed now m e)) es))
               (world ?s2) \<and>
           unlinked (snd (FileManager_loop quiescent d m now (map fst es) 0 ?s2)) =
             unlinked ?s2 @ map (Pair d) (filter (victim now m es) (map fst es))"
  proof (rule loop)
    show "\<And>cnt s. FileManager_loop quiescent d m now [] cnt s = (cnt, s)" by simp
  next
    fix f files cnt and s' :: sys and es'
    assume "disk (world s') d = Present es'" "distinct (map fst es')" "time (world s') = now"
    then show "\<exists>s''. FileManager_loop quiescent d m now (f # files) cnt s' =
               FileManager_loop quiescent d m now files
                 (if victim now m es' f then cnt + 1 else cnt) s'' \<and>
             world s'' = (if victim now m es' f
                         then putFolder d (Present (filter (\<lambda>e. fst e \<noteq> f) es')) (world s')
                         else world s') \<and>
             unlinked s'' = (if victim now m es' f then unlinked s' @ [(d, f)] else unlinked s')"
      using FileManager_round [of s' d es' m now f files cnt] by simp
  qed
  have run: "FileManager_cleanupOldFiles quiescent d m s =
             (Inr (fst (FileManager_loop quiescent d m now (map fst es) 0 ?s2)),
              snd (FileManager_loop quiescent d m now (map fst es) 0 ?s2))"
    by (simp add: FileManager_cleanupOldFiles_def mk readdir_quiescent [OF d1] w1 now_def
        split: prod.splits)
  show ?thesis
    using r
    by (simp add: run victims_listed [OF dist] survivors_listed survivors_listed_imp w1 u1 es_def [symmetric]
        now_def [symmetric] comp_def)
qed

lemma CleanupScheduler_quiescent:
  assumes "disk (world s) d \<noteq> Unavailable"
    and "distinct (map fst (listing (disk (world s) d)))"
  shows "fst (CleanupScheduler_cleanupDirectory quiescent this d s) =
           length (filter (doomed (time (world s)) (maxAge this)) (listing (disk (world s) d))) \<and>
         world (snd (CleanupScheduler_cleanupDirectory quiescent this d s)) =
           putFolder d (Present (filter (\<lambda>e. \<not> doomed (time (world s)) (maxAge this) e)
                                   (listing (disk (world s) d)))) (world s) \<and>
         unlinked (snd (CleanupScheduler_cleanupDirectory quiescent this d s)) =
           unlinked s @ map (\<lambda>e. (d, fst e))
                          (filter (doomed (time (world s)) (maxAge this)) (listing (disk (world s) d)))"
proof -
  define es where "es = listing (disk (world s) d)"
  define now where "now = time (world s)"
  define m where "m = maxAge this"
  from mkdir_quiescent [OF assms(1)] obtain s1 where
    mk: "fs_mkdir quiescent d s = (Inr (), s1)"
    and w1: "world s1 = putFolder d (Present es) (world s)"
    and u1: "unlinked s1 = unlinked s"
    by (auto simp: es_def)
  let ?s2 = "s1\<lparr>awaited := Suc (awaited s1)\<rparr>"
  have d1: "disk (world s1) d = Present es" by (simp add: w1)
  have d2: "disk (world ?s2) d = Present es" and t2: "time (world ?s2) = now"
    by (simp_all add: w1 now_def)
  have dist: "distinct (map fst es)" and dn: "distinct (map fst es)"
    using assms(2) by (simp_all add: es_def)
  note loop = sweep_rounds [where loop = "CleanupScheduler_loop quiescent this d" and d = d
      and now = now and m = m, OF _ _ d2 dist dn t2, of 0]
  have r: "fst (CleanupScheduler_loop quiescent this d (map fst es) 0 ?s2) =
             0 + length (filter (victim now m es) (map fst es)) \<and>
           world (snd (CleanupScheduler_loop quiescent this d (map fst es) 0 ?s2)) =
             putFolder d (Present (filter (\<lambda>e. \<not> (fst e \<in> set (map fst es) \<and> doomed now m e)) es))
               (world ?s2) \<and>
           unlinked (snd (CleanupScheduler_loop quiescent this d (map fst es) 0 ?s2)) =
             unlinked ?s2 @ map (Pair d) (filter (victim now m es) (map fst es))"
  proof (rule loop)
    show "\<And>cnt s. CleanupScheduler_loop quiescent this d [] cnt s = (cnt, s)" by simp
  next
    fix f files cnt and s' :: sys and es'
    assume "disk (world s') d = Present es'" "distinct (map fst es')" "time (world s') = now"
    then show "\<exists>s''. CleanupScheduler_loop quiescent this d (f # files) cnt s' =
               CleanupScheduler_loop quiescent this d files
                 (if victim now m es' f then cnt + 1 else cnt) s'' \<and>
             world s'' = (if victim now m es' f
                         then putFolder d (Present (filter (\<lambda>e. fst e \<noteq> f) es')) (world s')
                         else world s') \<and>
             unlinked s'' = (if victim now m es' f then unlinked s' @ [(d, f)] else unlinked s')"
      using CleanupScheduler_round [of s' d es' now this f files cnt] by (simp add: m_def)
  qed
  have run: "CleanupScheduler_cleanupDirectory quiescent this d s =
             CleanupScheduler_loop quiescent this d (map fst es) 0 ?s2"
    by (simp add: CleanupScheduler_cleanupDirectory_def mk readdir_quiescent [OF d1])
  show ?thesis
    using r
    by (simp add: run victims_listed [OF dist] survivors_listed survivors_listed_imp w1 u1 es_def [symmetric]
        now_def [symmetric] m_def [symmetric] comp_def)
qed

text \<open>Whatever the rest of the world does: what the calls do to the log of unlinked files.\<close>

lemma stat_unlinked: "unlinked (snd (fs_stat env d f s)) = unlinked s"
  by (simp add: fs_stat_def suspend_def Let_def split: folder.splits option.splits)

lemma mkdir_unlinked: "unlinked (snd (fs_mkdir env d s)) = unlinked s"
  by (simp add: fs_mkdir_def suspend_def setFolder_def Let_def split: folder.splits)

lemma readdir_unlinked: "unlinked (snd (fs_readdir env d s)) = unlinked s"
  by (simp add: fs_readdir_def suspend_def Let_def split: folder.splits)

lemma isFileOld_unlinked: "unlinked (snd (CleanupScheduler_isFileOld env this d f s)) = unlinked s"
  using stat_unlinked [of env d f s]
  by (auto simp: CleanupScheduler_isFileOld_def Let_def split: prod.splits sum.splits)

lemma deleteFile_counts:
  "length (unlinked (snd (CleanupScheduler_deleteFile env d f s))) =
   length (unlinked s) + (if fst (CleanupScheduler_deleteFile env d f s) then 1 else 0)"
  by (simp add: CleanupScheduler_deleteFile_def fs_unlink_def suspend_def setFolder_def Let_def
      split: folder.splits option.splits)

lemma CleanupScheduler_loop_counts:
  "fst (CleanupScheduler_loop env this d files cnt s) + length (unlinked s) =
   cnt + length (unlinked (snd (CleanupScheduler_loop env this d files cnt s)))"
proof (induction files arbitrary: cnt s)
  case Nil
  then show ?case by simp
next
  case (Cons f files)
  obtain r s1 where st: "fs_stat env d f s = (r, s1)" by fastforce
  have u1: "unlinked s1 = unlinked s" using stat_unlinked [of env d f s] st by simp
  show ?case
  proof (cases r)
    case (Inl e)
    with st Cons.IH [of cnt s1] u1 show ?thesis by simp
  next
    case (Inr stats)
    show ?thesis
    proof (cases "isFile stats")
      case False
      with st Inr Cons.IH [of cnt s1] u1 show ?thesis by simp
    next
      case True
      obtain isOld s2 where old: "CleanupScheduler_isFileOld env this d f s1 = (isOld, s2)"
        by fastforce
      have u2: "unlinked s2 = unlinked s"
        using isFileOld_unlinked [of env this d f s1] old u1 by simp
      show ?thesis
      proof (cases isOld)
        case False
        with st Inr True old Cons.IH [of cnt s2] u2 show ?thesis by simp
      next
        case isOld: True
        obtain deleted s3 where del: "CleanupScheduler_deleteFile env d f s2 = (deleted, s3)"
          by fastforce
        have u3: "length (unlinked s3) = length (unlinked s) + (if deleted then 1 else 0)"
          using deleteFile_counts [of env d f s2] del u2 by simp
        from st Inr True old isOld del
          Cons.IH [of "if deleted then cnt + 1 else cnt" s3] u3
        show ?thesis by (simp split: if_splits)
      qed
    qed
  qed
qed

lemma CleanupScheduler_counts_unlinked:
  "fst (CleanupScheduler_cleanupDirectory env this d s) + length (unlinked s) =
   length (unlinked (snd (CleanupScheduler_cleanupDirectory env this d s)))"
proof -
  obtain r1 s1 where mk: "fs_mkdir env d s = (r1, s1)" by fastforce
  have u1: "unlinked s1 = unlinked s" using mkdir_unlinked [of env d s] mk by simp
  obtain r2 s2 where rd: "fs_readdir env d s1 = (r2, s2)" by fastforce
  have u2: "unlinked s2 = unlinked s" using readdir_unlinked [of env d s1] rd u1 by simp
  show ?thesis
  proof (cases r1)
    case (Inl e)
    with mk u1 show ?thesis by (simp add: CleanupScheduler_cleanupDirectory_def)
  next
    case a: (Inr u)
    show ?thesis
    proof (cases r2)
      case (Inl e)
      with mk a rd u2 show ?thesis by (simp add: CleanupScheduler_cleanupDirectory_def)
    next
      case (Inr files)
      with mk a rd u2 CleanupScheduler_loop_counts [of env this d files 0 s2]
      show ?thesis by (simp add: CleanupScheduler_cleanupDirectory_def)
    qed
  qed
qed

lemma deleteFile_absent:
  assumes "disk (world (suspend env (Unlink d f) s)) d = Present es" and "map_of es f = None"
  shows "FileManager_deleteFile env d f s = (Inr False, suspend env (Unlink d f) s) \<and>
         CleanupScheduler_deleteFile env d f s = (False, suspend env (Unlink d f) s)"
  using assms
  by (simp add: FileManager_deleteFile_def CleanupScheduler_deleteFile_def fs_unlink_def Let_def)

lemma doomed_survivors: "filter (doomed now m) (filter (\<lambda>e. \<not> doomed now m e) es) = []"
  by (induction es) auto

lemma FileManager_twice:
  assumes "disk (world s) d \<noteq> Unavailable"
    and "distinct (map fst (listing (disk (world s) d)))"
  shows "fst (FileManager_cleanupOldFiles quiescent d m
                (snd (FileManager_cleanupOldFiles quiescent d m s))) = Inr 0 \<and>
         world (snd (FileManager_cleanupOldFiles quiescent d m
                (snd (FileManager_cleanupOldFiles quiescent d m s)))) =
           world (snd (FileManager_cleanupOldFiles quiescent d m s)) \<and>
         unlinked (snd (FileManager_cleanupOldFiles quiescent d m
                (snd (FileManager_cleanupOldFiles quiescent d m s)))) =
           unlinked (snd (FileManager_cleanupOldFiles quiescent d m s))"
proof -
  define s1 where "s1 = snd (FileManager_cleanupOldFiles quiescent d m s)"
  define es where "es = listing (disk (world s) d)"
  define now where "now = time (world s)"
  have w1: "world s1 = putFolder d (Present (filter (\<lambda>e. \<not> doomed now m e) es)) (world s)"
    using FileManager_quiescent [OF assms, of m] by (simp add: s1_def es_def now_def)
  have l1: "listing (disk (world s1) d) = filter (\<lambda>e. \<not> doomed now m e) es"
    and a1: "disk (world s1) d \<noteq> Unavailable" and t1: "time (world s1) = now"
    by (simp_all add: w1 listing_def now_def)
  have d1: "distinct (map fst (listing (disk (world s1) d)))"
    using assms(2) by (simp add: l1 es_def distinct_filter_fst)
  show ?thesis
    using FileManager_quiescent [OF a1 d1, of m]
    by (simp add: s1_def [symmetric] l1 t1 doomed_survivors) (simp add: w1)
qed

lemma CleanupScheduler_twice:
  assumes "disk (world s) d \<noteq> Unavailable"
    and "distinct (map fst (listing (disk (world s) d)))"
  shows "fst (CleanupScheduler_cleanupDirectory quiescent this d
                (snd (CleanupScheduler_cleanupDirectory quiescent this d s))) = 0 \<and>
         world (snd (CleanupScheduler_cleanupDirectory quiescent this d
                (snd (CleanupScheduler_cleanupDirectory quiescent this d s)))) =
           world (snd (CleanupScheduler_cleanupDirectory quiescent this d s)) \<and>
         unlinked (snd (CleanupScheduler_cleanupDirectory quiescent this d
                (snd (CleanupScheduler_cleanupDirectory quiescent this d s)))) =
           unlinked (snd (CleanupScheduler_cleanupDirectory quiescent this d s))"
proof -
  define s1 where "s1 = snd (CleanupScheduler_cleanupDirectory quiescent this d s)"
  define es where "es = listing (disk (world s) d)"
  define now where "now = time (world s)"
  have w1: "world s1 = putFolder d (Present (filter (\<lambda>e. \<not> doomed now (maxAge this) e) es)) (world s)"
    using CleanupScheduler_quiescent [OF assms, of this] by (simp add: s1_def es_def now_def)
  have l1: "listing (disk (world s1) d) = filter (\<lambda>e. \<not> doomed now (maxAge this) e) es"
    and a1: "disk (world s1) d \<noteq> Unavailable" and t1: "time (world s1) = now"
    by (simp_all add: w1 listing_def now_def)
  have d1: "distinct (map fst (listing (disk (world s1) d)))"
    using assms(2) by (simp add: l1 es_def distinct_filter_fst)
  show ?thesis
    using CleanupScheduler_quiescent [OF a1 d1, of this]
    by (simp add: s1_def [symmetric] l1 t1 doomed_survivors) (simp add: w1)
qed

lemma FileManager_unavailable:
  assumes "disk (world s) d = Unavailable"
  shows "FileManager_cleanupOldFiles quiescent d m s = (Inl EACCES, s\<lparr>awaited := Suc (awaited s)\<rparr>)"
  using assms by (simp add: FileManager_cleanupOldFiles_def fs_mkdir_def)

lemma CleanupScheduler_unavailable:
  assumes "disk (world s) d = Unavailable"
  shows "CleanupScheduler_cleanupDirectory quiescent this d s = (0, s\<lparr>awaited := Suc (awaited s)\<rparr>)"
  using assms by (simp add: CleanupScheduler_cleanupDirectory_def fs_mkdir_def)

subsection \<open>What a sweep removes and returns\<close>

text \<open>
  Claim C7, as amended. Take a directory that can be created and read, with nothing else
  touching it during the sweep. Either sweeper then removes exactly the entries directly
  inside it that are regular files, older than \<open>maxAge\<close> by the clock, and that
  \<open>unlink\<close> agrees to remove; everything else stays, other directories and the clock
  included: subdirectories are skipped, a stale file whose \<open>unlink\<close> is refused is
  skipped, a missing directory is created empty. The count returned is the number of
  entries removed, which is the number of files the sweeper unlinked. Besides, whatever
  else runs in between: \<open>CleanupScheduler\<close> returns the number of files it unlinked, and
  deleting a file that is already gone is not an error in either class: \<open>deleteFile\<close>
  returns false and changes nothing.
\<close>

theorem sweep_removes_stale_files:
  assumes "disk (world s) directory \<noteq> Unavailable"
    and "distinct (map fst (listing (disk (world s) directory)))"
    and "maxAge this = maxAge'"
  shows "fst (FileManager_cleanupOldFiles quiescent directory maxAge' s) =
           Inr (length (filter (doomed (time (world s)) maxAge')
                          (listing (disk (world s) directory)))) \<and>
         world (snd (FileManager_cleanupOldFiles quiescent directory maxAge' s)) =
           putFolder directory
             (Present (filter (\<lambda>e. \<not> doomed (time (world s)) maxAge' e)
                         (listing (disk (world s) directory)))) (world s) \<and>
         unlinked (snd (FileManager_cleanupOldFiles quiescent directory maxAge' s)) =
           unlinked s @ map (\<lambda>e. (directory, fst e))
                          (filter (doomed (time (world s)) maxAge')
                             (listing (disk (world s) directory))) \<and>
         fst (CleanupScheduler_cleanupDirectory quiescent this directory s) =
           length (filter (doomed (time (world s)) maxAge')
                     (listing (disk (world s) directory))) \<and>
         world (snd (CleanupScheduler_cleanupDirectory quiescent this directory s)) =
           putFolder directory
             (Present (filter (\<lambda>e. \<not> doomed (time (world s)) maxAge' e)
                         (listing (disk (world s) directory)))) (world s) \<and>
         unlinked (snd (CleanupScheduler_cleanupDirectory quiescent this directory s)) =
           unlinked s @ map (\<lambda>e. (directory, fst e))
                          (filter (doomed (time (world s)) maxAge')
                             (listing (disk (world s) directory))) \<and>
         fst (CleanupScheduler_cleanupDirectory env this directory s) + length (unlinked s) =
           length (unlinked (snd (CleanupScheduler_cleanupDirectory env this directory s))) \<and>
         (disk (world (suspend env (Unlink directory gone) s)) directory = Present es \<and>
          map_of es gone = None \<longrightarrow>
            FileManager_deleteFile env directory gone s =
              (Inr False, suspend env (Unlink directory gone) s) \<and>
            CleanupScheduler_deleteFile env directory gone s =
              (False, suspend env (Unlink directory gone) s))"
  using FileManager_quiescent [OF assms(1,2), of maxAge']
    CleanupScheduler_quiescent [OF assms(1,2), of this]
    CleanupScheduler_counts_unlinked [of env this directory s]
    deleteFile_absent [of env directory gone s es] assms(3)
  by simp

lemma example_names:
  "js ''old.wav'' \<noteq> js ''new.wav''" "js ''outputs'' \<noteq> exampleDir"
  by (simp_all add: js_def exampleDir_def)

theorem sweep_removes_stale_files_witness:
  "disk (world (boot tenAndOne)) exampleDir \<noteq> Unavailable \<and>
   distinct (map fst (listing (disk (world (boot tenAndOne)) exampleDir))) \<and>
   maxAge exampleScheduler = 300000 \<and>
   fst (FileManager_cleanupOldFiles quiescent exampleDir 300000 (boot tenAndOne)) = Inr 1 \<and>
   disk (world (snd (FileManager_cleanupOldFiles quiescent exampleDir 300000 (boot tenAndOne))))
     exampleDir =
     Present [(js ''new.wav'', \<lparr>isFile = True, mtime = 1699999940000, removable = True\<rparr>)] \<and>
   unlinked (snd (FileManager_cleanupOldFiles quiescent exampleDir 300000 (boot tenAndOne))) =
     [(exampleDir, js ''old.wav'')] \<and>
   fst (CleanupScheduler_cleanupDirectory quiescent exampleScheduler exampleDir (boot tenAndOne)) = 1 \<and>
   disk (world (snd (CleanupScheduler_cleanupDirectory quiescent exampleScheduler exampleDir
      (boot tenAndOne)))) exampleDir =
     Present [(js ''new.wav'', \<lparr>isFile = True, mtime = 1699999940000, removable = True\<rparr>)] \<and>
   fst (FileManager_cleanupOldFiles quiescent (js ''outputs'') 300000 (boot tenAndOne)) = Inr 0 \<and>
   disk (world (snd (FileManager_cleanupOldFiles quiescent (js ''outputs'') 300000 (boot tenAndOne))))
     (js ''outputs'') = Present []"
proof -
  have l: "listing (disk (world (boot tenAndOne)) exampleDir) =
           [(js ''old.wav'', \<lparr>isFile = True, mtime = 1699999400000, removable = True\<rparr>),
            (js ''new.wav'', \<lparr>isFile = True, mtime = 1699999940000, removable = True\<rparr>)]"
    and t: "time (world (boot tenAndOne)) = 1700000000000"
    and u: "unlinked (boot tenAndOne) = []"
    and l': "listing (disk (world (boot tenAndOne)) (js ''outputs'')) = []"
    using example_names by (simp_all add: boot_def tenAndOne_def listing_def)
  have h1: "disk (world (boot tenAndOne)) exampleDir \<noteq> Unavailable"
    and h1': "disk (world (boot tenAndOne)) (js ''outputs'') \<noteq> Unavailable"
    using example_names by (simp_all add: boot_def tenAndOne_def)
  have h2: "distinct (map fst (listing (disk (world (boot tenAndOne)) exampleDir)))"
    and h2': "distinct (map fst (listing (disk (world (boot tenAndOne)) (js ''outputs''))))"
    using example_names by (simp_all add: l l')
  have h3: "maxAge exampleScheduler = 300000"
    by (simp add: exampleScheduler_def)
  show ?thesis
    using sweep_removes_stale_files [OF h1 h2 h3]
      sweep_removes_stale_files [OF h1' h2' h3] h1 h2 h3
    by (simp add: l l' t u doomed_def stale_def)
qed

text \<open>
  The claim as stated has every stale regular file deleted. A stale regular file that
  \<open>unlink\<close> refuses to remove (one held open, say) is left in place by both sweepers,
  which skip it and count nothing.
\<close>

theorem pinned_file_counterexample:
  "stale (time pinnedWorld) 300000 \<lparr>isFile = True, mtime = 1699999400000, removable = False\<rparr> \<and>
   fst (FileManager_cleanupOldFiles quiescent exampleDir 300000 (boot pinnedWorld)) = Inr 0 \<and>
   disk (world (snd (FileManager_cleanupOldFiles quiescent exampleDir 300000 (boot pinnedWorld))))
     exampleDir =
     Present [(js ''open.wav'', \<lparr>isFile = True, mtime = 1699999400000, removable = False\<rparr>)] \<and>
   fst (CleanupScheduler_cleanupDirectory quiescent exampleScheduler exampleDir (boot pinnedWorld)) = 0 \<and>
   disk (world (snd (CleanupScheduler_cleanupDirectory quiescent exampleScheduler exampleDir
      (boot pinnedWorld)))) exampleDir =
     Present [(js ''open.wav'', \<lparr>isFile = True, mtime = 1699999400000, removable = False\<rparr>)]"
  by code_simp

text \<open>
  Claim C8. Two sweeps in succession, with nothing else touching the directory and the
  clock unchanged: the second unlinks nothing and leaves the world as the first left it,
  for either sweeper and whatever the state of the directory. The second count of
  \<open>CleanupScheduler\<close> is 0; so is that of \<open>FileManager\<close> whenever its first sweep
  returned a count (on a directory that cannot be created it fails both times).
\<close>

theorem sweep_twice_deletes_once:
  assumes "distinct (map fst (listing (disk (world s) directory)))"
  shows "(fst (FileManager_cleanupOldFiles quiescent directory maxAge' s) = Inr n \<longrightarrow>
            fst (FileManager_cleanupOldFiles quiescent directory maxAge'
                   (snd (FileManager_cleanupOldFiles quiescent directory maxAge' s))) = Inr 0) \<and>
         world (snd (FileManager_cleanupOldFiles quiescent directory maxAge'
                (snd (FileManager_cleanupOldFiles quiescent directory maxAge' s)))) =
           world (snd (FileManager_cleanupOldFiles quiescent directory maxAge' s)) \<and>
         unlinked (snd (FileManager_cleanupOldFiles quiescent directory maxAge'
                (snd (FileManager_cleanupOldFiles quiescent directory maxAge' s)))) =
           unlinked (snd (FileManager_cleanupOldFiles quiescent directory maxAge' s)) \<and>
         fst (CleanupScheduler_cleanupDirectory quiescent this directory
                (snd (CleanupScheduler_cleanupDirectory quiescent this directory s))) = 0 \<and>
         world (snd (CleanupScheduler_cleanupDirectory quiescent this directory
                (snd (CleanupScheduler_cleanupDirectory quiescent this directory s)))) =
           world (snd (CleanupScheduler_cleanupDirectory quiescent this directory s)) \<and>
         unlinked (snd (CleanupScheduler_cleanupDirectory quiescent this directory
                (snd (CleanupScheduler_cleanupDirectory quiescent this directory s)))) =
           unlinked (snd (CleanupScheduler_cleanupDirectory quiescent this directory s))"
proof (cases "disk (world s) directory = Unavailable")
  case True
  then show ?thesis
    by (simp add: FileManager_unavailable CleanupScheduler_unavailable)
next
  case False
  then show ?thesis
    using FileManager_twice [OF False assms, of maxAge']
      CleanupScheduler_twice [OF False assms, of this]
    by simp
qed

theorem sweep_twice_deletes_once_witness:
  "distinct (map fst (listing (disk (world (boot tenAndOne)) exampleDir))) \<and>
   fst (FileManager_cleanupOldFiles quiescent exampleDir 300000 (boot tenAndOne)) = Inr 1 \<and>
   fst (FileManager_cleanupOldFiles quiescent exampleDir 300000
          (snd (FileManager_cleanupOldFiles quiescent exampleDir 300000 (boot tenAndOne)))) = Inr 0 \<and>
   fst (CleanupScheduler_cleanupDirectory quiescent exampleScheduler exampleDir (boot tenAndOne)) = 1 \<and>
   fst (CleanupScheduler_cleanupDirectory quiescent exampleScheduler exampleDir
          (snd (CleanupScheduler_cleanupDirectory quiescent exampleScheduler exampleDir
             (boot tenAndOne)))) = 0"
proof -
  have h: "distinct (map fst (listing (disk (world (boot tenAndOne)) exampleDir)))"
    using example_names by (simp add: boot_def tenAndOne_def listing_def)
  have first: "fst (FileManager_cleanupOldFiles quiescent exampleDir 300000 (boot tenAndOne)) = Inr 1"
    "fst (CleanupScheduler_cleanupDirectory quiescent exampleScheduler exampleDir (boot tenAndOne)) = 1"
    by code_simp+
  show ?thesis
    using sweep_twice_deletes_once [OF h, of 300000 1 exampleScheduler] h first
    by simp
qed

text \<open>
  Claim C10. One old file, which another process removes after the sweeper has checked
  its age and before the sweeper's \<open>unlink\<close> takes effect; same \<open>maxAge\<close> for both
  sweepers. Neither unlinks anything. \<open>FileManager.cleanupOldFiles\<close> returns 1 all the
  same, \<open>CleanupScheduler.cleanupDirectory\<close> returns 0.
\<close>

theorem sweepers_count_vanished_file_differently:
  "fst (FileManager_cleanupOldFiles vanishBeforeUnlink exampleDir 300000 (boot oneOldFile)) = Inr 1 \<and>
   unlinked (snd (FileManager_cleanupOldFiles vanishBeforeUnlink exampleDir 300000 (boot oneOldFile))) = [] \<and>
   fst (CleanupScheduler_cleanupDirectory vanishBeforeUnlink exampleScheduler exampleDir
          (boot oneOldFile)) = 0 \<and>
   unlinked (snd (CleanupScheduler_cleanupDirectory vanishBeforeUnlink exampleScheduler exampleDir
          (boot oneOldFile))) = [] \<and>
   maxAge exampleScheduler = 300000"
  by code_simp

text \<open>With nothing else touching the directory the two sweepers do agree.\<close>

lemma sweepers_agree_when_quiescent:
  assumes "disk (world s) directory \<noteq> Unavailable"
    and "distinct (map fst (listing (disk (world s) directory)))"
  shows "fst (FileManager_cleanupOldFiles quiescent directory (maxAge this) s) =
           Inr (fst (CleanupScheduler_cleanupDirectory quiescent this directory s)) \<and>
         world (snd (FileManager_cleanupOldFiles quiescent directory (maxAge this) s)) =
           world (snd (CleanupScheduler_cleanupDirectory quiescent this directory s)) \<and>
         unlinked (snd (FileManager_cleanupOldFiles quiescent directory (maxAge this) s)) =
           unlinked (snd (CleanupScheduler_cleanupDirectory quiescent this directory s))"
  using FileManager_quiescent [OF assms, of "maxAge this"]
    CleanupScheduler_quiescent [OF assms, of this]
  by simp

end
